theory Spec2Isabelle
  imports Main
begin

section \<open>JavaScript values\<close>

text \<open>
  The receipt pipeline of \<^verbatim>\<open>receipts.service.ts\<close> works on untyped JavaScript data
  (\<^verbatim>\<open>any\<close>): the analyzer's JSON response, the payloads built from it and the
  Firestore documents. A value is \<^verbatim>\<open>undefined\<close>, \<^verbatim>\<open>null\<close>, a boolean, a number, a
  string, an array or an object. Numbers are restricted to integers, written in digits
  (\<^verbatim>\<open>JSON.stringify\<close> does so below \<open>10\<^sup>2\<^sup>1\<close>). A string is a list of
  UTF-16 code units below 256 (one \<open>char\<close> each), so that \<open>length\<close> is
  JavaScript's \<^verbatim>\<open>.length\<close>. An object is the list of its own properties in
  \<^verbatim>\<open>Object.keys\<close> order; an object literal may hold a property whose value is
  \<^verbatim>\<open>undefined\<close>. The prototype of an object is not part of the value: the code reads
  the objects it builds with \<^verbatim>\<open>Object.keys\<close>, \<^verbatim>\<open>JSON.stringify\<close> and the
  Firestore client, which see own properties only.
\<close>

datatype jv =
    JUndef
  | JNull
  | JBool bool
  | JNum int
  | JStr string
  | JArr "jv list"
  | JObj "(string \<times> jv) list"

type_synonym doc = "(string \<times> jv) list"

fun truthy :: "jv \<Rightarrow> bool" where
  "truthy JUndef = False"
| "truthy JNull = False"
| "truthy (JBool b) = b"
| "truthy (JNum n) = (n \<noteq> 0)"
| "truthy (JStr s) = (s \<noteq> [])"
| "truthy (JArr xs) = True"
| "truthy (JObj kvs) = True"

text \<open>\<^verbatim>\<open>a || b\<close>\<close>

definition js_or :: "jv \<Rightarrow> jv \<Rightarrow> jv" where
  "js_or a b = (if truthy a then a else b)"

fun isArray :: "jv \<Rightarrow> bool" where
  "isArray (JArr xs) = True"
| "isArray v = False"

fun isString :: "jv \<Rightarrow> bool" where
  "isString (JStr s) = True"
| "isString v = False"

text \<open>
  Property read \<^verbatim>\<open>o.k\<close>. A missing property reads as \<^verbatim>\<open>undefined\<close>, and so does any
  of the property names used here on a primitive or an array. On \<^verbatim>\<open>null\<close> and
  \<^verbatim>\<open>undefined\<close> JavaScript throws; every read below is on a value already known to
  be neither.
\<close>

fun obj_get :: "jv \<Rightarrow> string \<Rightarrow> jv" where
  "obj_get (JObj kvs) k = (case map_of kvs k of None \<Rightarrow> JUndef | Some v \<Rightarrow> v)"
| "obj_get v k = JUndef"

text \<open>
  The order of the properties of an object: the keys that are array indices (the decimal
  numerals, without leading zeros, of the numbers below \<open>2\<^sup>3\<^sup>2 - 1\<close>) come first, in
  ascending numeric order, and the other keys follow in the order of their creation.
\<close>

definition is_digit :: "char \<Rightarrow> bool" where
  "is_digit c = (48 \<le> (of_char c :: nat) \<and> (of_char c :: nat) \<le> 57)"

definition digits_val :: "string \<Rightarrow> nat" where
  "digits_val ds = foldl (\<lambda>a c. 10 * a + (of_char c - 48)) 0 ds"

definition is_index :: "string \<Rightarrow> bool" where
  "is_index k =
     (k \<noteq> [] \<and> list_all is_digit k \<and> (if hd k = CHR ''0'' then length k = 1 else True)
      \<and> digits_val k < 4294967295)"

fun insert_index :: "doc \<Rightarrow> string \<Rightarrow> jv \<Rightarrow> doc" where
  "insert_index [] k v = [(k, v)]"
| "insert_index ((k', v') # kvs) k v =
     (if is_index k' \<and> digits_val k' < digits_val k then (k', v') # insert_index kvs k v
      else (k, v) # (k', v') # kvs)"

fun replace_value :: "doc \<Rightarrow> string \<Rightarrow> jv \<Rightarrow> doc" where
  "replace_value [] k v = []"
| "replace_value ((k', v') # kvs) k v =
     (if k' = k then (k, v) # kvs else (k', v') # replace_value kvs k v)"

text \<open>
  Property write \<^verbatim>\<open>o[k] = v\<close> on an object whose prototype has no setter for
  \<^verbatim>\<open>k\<close>: an existing key keeps its place, a new array index goes to its place among
  the indices, any other new key goes last.
\<close>

definition obj_set :: "doc \<Rightarrow> string \<Rightarrow> jv \<Rightarrow> doc" where
  "obj_set d k v =
     (if k \<in> fst ` set d then replace_value d k v
      else if is_index k then insert_index d k v
      else d @ [(k, v)])"

text \<open>\<^verbatim>\<open>s.includes(needle)\<close>\<close>

fun starts_with :: "string \<Rightarrow> string \<Rightarrow> bool" where
  "starts_with s [] = True"
| "starts_with [] (p # ps) = False"
| "starts_with (c # cs) (p # ps) = (c = p \<and> starts_with cs ps)"

fun js_includes :: "string \<Rightarrow> string \<Rightarrow> bool" where
  "js_includes [] needle = (needle = [])"
| "js_includes (c # cs) needle = (starts_with (c # cs) needle \<or> js_includes cs needle)"

subsection \<open>Numbers and strings as text\<close>

definition digit_char :: "nat \<Rightarrow> char" where
  "digit_char d = char_of (48 + d)"

function show_nat :: "nat \<Rightarrow> string" where
  "show_nat n = (if n < 10 then [digit_char n] else show_nat (n div 10) @ [digit_char (n mod 10)])"
  by pat_completeness auto
termination
  by (relation "measure id") auto

declare show_nat.simps [simp del]

definition show_int :: "int \<Rightarrow> string" where
  "show_int i = (if i < 0 then CHR ''-'' # show_nat (nat (- i)) else show_nat (nat i))"

fun commas :: "string list \<Rightarrow> string" where
  "commas [] = []"
| "commas [s] = s"
| "commas (s # t # ts) = s @ CHR '','' # commas (t # ts)"

text \<open>\<^verbatim>\<open>String(v)\<close>, the message of \<^verbatim>\<open>new Error(v)\<close>.\<close>

fun js_to_string :: "jv \<Rightarrow> string"
  and join_elems :: "jv list \<Rightarrow> string list" where
  "js_to_string JUndef = ''undefined''"
| "js_to_string JNull = ''null''"
| "js_to_string (JBool b) = (if b then ''true'' else ''false'')"
| "js_to_string (JNum n) = show_int n"
| "js_to_string (JStr s) = s"
| "js_to_string (JArr xs) = commas (join_elems xs)"
| "js_to_string (JObj kvs) = ''[object Object]''"
| "join_elems [] = []"
| "join_elems (x # xs) =
     (if x = JNull \<or> x = JUndef then [] else js_to_string x) # join_elems xs"

definition js_typeof :: "jv \<Rightarrow> string" where
  "js_typeof v =
     (case v of
        JUndef \<Rightarrow> ''undefined''
      | JBool b \<Rightarrow> ''boolean''
      | JNum n \<Rightarrow> ''number''
      | JStr s \<Rightarrow> ''string''
      | _ \<Rightarrow> ''object'')"

text \<open>
  The number of bytes of a string in UTF-8: a code unit below 128 is one byte, one from 128
  to 255 is two (\<^verbatim>\<open>Buffer.from(s).length\<close>, as \<^verbatim>\<open>mintTrustIdNFT\<close> in
  \<^verbatim>\<open>hedera.service.ts\<close> measures its metadata).
\<close>

definition utf8_length :: "string \<Rightarrow> nat" where
  "utf8_length s = sum_list (map (\<lambda>c. if (of_char c :: nat) < 128 then 1 else 2) s)"

subsection \<open>\<^verbatim>\<open>JSON.stringify\<close>\<close>

definition hex_char :: "nat \<Rightarrow> char" where
  "hex_char d = (if d < 10 then char_of (48 + d) else char_of (87 + d))"

definition escape_char :: "char \<Rightarrow> string" where
  "escape_char c =
     (if c = CHR 0x22 then [CHR 0x5C, CHR 0x22]
      else if c = CHR 0x5C then [CHR 0x5C, CHR 0x5C]
      else if c = CHR 0x08 then [CHR 0x5C, CHR ''b'']
      else if c = CHR 0x0C then [CHR 0x5C, CHR ''f'']
      else if c = CHR 0x0A then [CHR 0x5C, CHR ''n'']
      else if c = CHR 0x0D then [CHR 0x5C, CHR ''r'']
      else if c = CHR 0x09 then [CHR 0x5C, CHR ''t'']
      else if (of_char c :: nat) < 32
        then [CHR 0x5C, CHR ''u'', CHR ''0'', CHR ''0'',
              hex_char (of_char c div 16), hex_char (of_char c mod 16)]
      else [c])"

definition quote :: "string \<Rightarrow> string" where
  "quote s = CHR 0x22 # concat (map escape_char s) @ [CHR 0x22]"

text \<open>
  \<open>ser v\<close> is the JSON text of a value other than \<^verbatim>\<open>undefined\<close>: inside an array
  \<^verbatim>\<open>undefined\<close> is written \<^verbatim>\<open>null\<close>, inside an object the property is left out.
\<close>

fun ser :: "jv \<Rightarrow> string"
  and ser_elems :: "jv list \<Rightarrow> string list"
  and ser_members :: "doc \<Rightarrow> string list" where
  "ser JUndef = ''null''"
| "ser JNull = ''null''"
| "ser (JBool b) = (if b then ''true'' else ''false'')"
| "ser (JNum n) = show_int n"
| "ser (JStr s) = quote s"
| "ser (JArr xs) = CHR ''['' # commas (ser_elems xs) @ '']''"
| "ser (JObj kvs) = CHR ''{'' # commas (ser_members kvs) @ ''}''"
| "ser_elems [] = []"
| "ser_elems (x # xs) = ser x # ser_elems xs"
| "ser_members [] = []"
| "ser_members ((k, v) # kvs) =
     (if v = JUndef then ser_members kvs
      else (quote k @ CHR '':'' # ser v) # ser_members kvs)"

definition JSON_stringify :: "jv \<Rightarrow> jv" where
  "JSON_stringify v = (if v = JUndef then JUndef else JStr (ser v))"

subsection \<open>\<^verbatim>\<open>JSON.parse\<close>\<close>

text \<open>
  A recursive-descent parser for JSON text. The fuel bounds the nesting of the calls; twice
  the length of the text is always enough, and \<open>JSON_parse\<close> gives that much. \<open>None\<close> is
  the \<^verbatim>\<open>SyntaxError\<close>. A number with a fraction or an exponent and an escape
  \<^verbatim>\<open>\uXXXX\<close> above 255 have no value in this model and are refused.
\<close>

definition is_ws :: "char \<Rightarrow> bool" where
  "is_ws c = (c = CHR 0x20 \<or> c = CHR 0x09 \<or> c = CHR 0x0A \<or> c = CHR 0x0D)"

definition skip_ws :: "string \<Rightarrow> string" where
  "skip_ws s = dropWhile is_ws s"

definition hex_val :: "char \<Rightarrow> nat option" where
  "hex_val c =
     (let n = (of_char c :: nat)
      in if 48 \<le> n \<and> n \<le> 57 then Some (n - 48)
         else if 97 \<le> n \<and> n \<le> 102 then Some (n - 87)
         else if 65 \<le> n \<and> n \<le> 70 then Some (n - 55)
         else None)"

definition unescape :: "char \<Rightarrow> char option" where
  "unescape e =
     (if e = CHR 0x22 then Some (CHR 0x22)
      else if e = CHR 0x5C then Some (CHR 0x5C)
      else if e = CHR ''/'' then Some (CHR ''/'')
      else if e = CHR ''b'' then Some (CHR 0x08)
      else if e = CHR ''f'' then Some (CHR 0x0C)
      else if e = CHR ''n'' then Some (CHR 0x0A)
      else if e = CHR ''r'' then Some (CHR 0x0D)
      else if e = CHR ''t'' then Some (CHR 0x09)
      else None)"

fun parse_string_body :: "string \<Rightarrow> (string \<times> string) option" where
  "parse_string_body [] = None"
| "parse_string_body (c # r) =
     (if c = CHR 0x22 then Some ([], r)
      else if c = CHR 0x5C then
        (case r of
           [] \<Rightarrow> None
         | e # r1 \<Rightarrow>
             if e = CHR ''u'' then
               (case r1 of
                  h1 # h2 # h3 # h4 # r2 \<Rightarrow>
                    (case (hex_val h1, hex_val h2, hex_val h3, hex_val h4) of
                       (Some a, Some b, Some c, Some d) \<Rightarrow>
                         (let n = ((a * 16 + b) * 16 + c) * 16 + d
                          in if n < 256
                             then (case parse_string_body r2 of
                                     None \<Rightarrow> None
                                   | Some (s, t) \<Rightarrow> Some (char_of n # s, t))
                             else None)
                     | _ \<Rightarrow> None)
                | _ \<Rightarrow> None)
             else
               (case unescape e of
                  None \<Rightarrow> None
                | Some ch \<Rightarrow>
                    (case parse_string_body r1 of
                       None \<Rightarrow> None
                     | Some (s, t) \<Rightarrow> Some (ch # s, t))))
      else if (of_char c :: nat) < 32 then None
      else (case parse_string_body r of
              None \<Rightarrow> None
            | Some (s, t) \<Rightarrow> Some (c # s, t)))"

definition parse_number :: "string \<Rightarrow> (int \<times> string) option" where
  "parse_number s =
     (let neg = (case s of [] \<Rightarrow> False | c # _ \<Rightarrow> c = CHR ''-'');
          s1 = (if neg then tl s else s);
          ds = takeWhile is_digit s1;
          rest = dropWhile is_digit s1
      in if ds = [] then None
         else if hd ds = CHR ''0'' \<and> 1 < length ds then None
         else if (case rest of [] \<Rightarrow> False
                  | c # _ \<Rightarrow> c = CHR ''.'' \<or> c = CHR ''e'' \<or> c = CHR ''E'') then None
         else Some (if neg then - int (digits_val ds) else int (digits_val ds), rest))"

definition mk_obj :: "doc \<Rightarrow> jv" where
  "mk_obj pairs = JObj (foldl (\<lambda>acc (k, v). obj_set acc k v) [] pairs)"

fun parse_value :: "nat \<Rightarrow> string \<Rightarrow> (jv \<times> string) option"
  and parse_elems :: "nat \<Rightarrow> string \<Rightarrow> (jv list \<times> string) option"
  and parse_members :: "nat \<Rightarrow> string \<Rightarrow> (doc \<times> string) option" where
  "parse_value 0 s = None"
| "parse_value (Suc n) s =
     (case skip_ws s of
        [] \<Rightarrow> None
      | c # r \<Rightarrow>
          if c = CHR ''['' then
            (case skip_ws r of
               [] \<Rightarrow> None
             | d # r1 \<Rightarrow>
                 if d = CHR '']'' then Some (JArr [], r1)
                 else (case parse_elems n r of
                         None \<Rightarrow> None
                       | Some (vs, t) \<Rightarrow> Some (JArr vs, t)))
          else if c = CHR ''{'' then
            (case skip_ws r of
               [] \<Rightarrow> None
             | d # r1 \<Rightarrow>
                 if d = CHR ''}'' then Some (JObj [], r1)
                 else (case parse_members n r of
                         None \<Rightarrow> None
                       | Some (kvs, t) \<Rightarrow> Some (mk_obj kvs, t)))
          else if c = CHR 0x22 then
            (case parse_string_body r of
               None \<Rightarrow> None
             | Some (str, t) \<Rightarrow> Some (JStr str, t))
          else if c = CHR ''t'' then
            (if take 3 r = ''rue'' then Some (JBool True, drop 3 r) else None)
          else if c = CHR ''f'' then
            (if take 4 r = ''alse'' then Some (JBool False, drop 4 r) else None)
          else if c = CHR ''n'' then
            (if take 3 r = ''ull'' then Some (JNull, drop 3 r) else None)
          else (case parse_number (c # r) of
                  None \<Rightarrow> None
                | Some (i, t) \<Rightarrow> Some (JNum i, t)))"
| "parse_elems 0 s = None"
| "parse_elems (Suc n) s =
     (case parse_value n s of
        None \<Rightarrow> None
      | Some (v, r) \<Rightarrow>
          (case skip_ws r of
             [] \<Rightarrow> None
           | c # r1 \<Rightarrow>
               if c = CHR '','' then
                 (case parse_elems n r1 of
                    None \<Rightarrow> None
                  | Some (vs, t) \<Rightarrow> Some (v # vs, t))
               else if c = CHR '']'' then Some ([v], r1)
               else None))"
| "parse_members 0 s = None"
| "parse_members (Suc n) s =
     (case skip_ws s of
        [] \<Rightarrow> None
      | q # r \<Rightarrow>
          if q = CHR 0x22 then
            (case parse_string_body r of
               None \<Rightarrow> None
             | Some (k, r1) \<Rightarrow>
                 (case skip_ws r1 of
                    [] \<Rightarrow> None
                  | c1 # r2 \<Rightarrow>
                      if c1 = CHR '':'' then
                        (case parse_value n r2 of
                           None \<Rightarrow> None
                         | Some (v, r3) \<Rightarrow>
                             (case skip_ws r3 of
                                [] \<Rightarrow> None
                              | c3 # r4 \<Rightarrow>
                                  if c3 = CHR '','' then
                                    (case parse_members n r4 of
                                       None \<Rightarrow> None
                                     | Some (kvs, t) \<Rightarrow> Some ((k, v) # kvs, t))
                                  else if c3 = CHR ''}'' then Some ([(k, v)], r4)
                                  else None))
                      else None))
          else None)"

definition JSON_parse :: "string \<Rightarrow> jv option" where
  "JSON_parse s =
     (case parse_value (2 * length s + 2) s of
        None \<Rightarrow> None
      | Some (v, r) \<Rightarrow> if skip_ws r = [] then Some v else None)"

text \<open>
  JSON data: what \<^verbatim>\<open>JSON.parse\<close> and an HTTP client return, as far as this model has
  it. No \<^verbatim>\<open>undefined\<close> at any depth; every number an integer that a JavaScript number
  holds exactly and writes in digits (magnitude below \<open>2\<^sup>5\<^sup>3\<close>); the keys of every object
  distinct and in property order.
\<close>

fun key_order :: "string list \<Rightarrow> bool" where
  "key_order [] = True"
| "key_order (k # ks) =
     (list_all (\<lambda>k'. if is_index k' then is_index k \<and> digits_val k < digits_val k' else True) ks
      \<and> key_order ks)"

fun json_value :: "jv \<Rightarrow> bool"
  and json_values :: "jv list \<Rightarrow> bool"
  and json_fields :: "doc \<Rightarrow> bool" where
  "json_value JUndef = False"
| "json_value JNull = True"
| "json_value (JBool b) = True"
| "json_value (JNum n) = (\<bar>n\<bar> < 9007199254740992)"
| "json_value (JStr s) = True"
| "json_value (JArr xs) = json_values xs"
| "json_value (JObj kvs) =
     (json_fields kvs \<and> distinct (map fst kvs) \<and> key_order (map fst kvs))"
| "json_values [] = True"
| "json_values (x # xs) = (json_value x \<and> json_values xs)"
| "json_fields [] = True"
| "json_fields ((k, v) # kvs) = (json_value v \<and> json_fields kvs)"

text \<open>The nesting of parser calls that reading the text of a value back takes.\<close>

fun fuel :: "jv \<Rightarrow> nat"
  and fuel_elems :: "jv list \<Rightarrow> nat"
  and fuel_fields :: "doc \<Rightarrow> nat" where
  "fuel (JArr xs) = Suc (fuel_elems xs)"
| "fuel (JObj kvs) = Suc (fuel_fields kvs)"
| "fuel v = 1"
| "fuel_elems [] = 0"
| "fuel_elems (x # xs) = Suc (max (fuel x) (fuel_elems xs))"
| "fuel_fields [] = 0"
| "fuel_fields ((k, v) # kvs) = Suc (max (fuel v) (fuel_fields kvs))"

definition delim :: "string \<Rightarrow> bool" where
  "delim rest =
     (case rest of
        [] \<Rightarrow> True
      | c # _ \<Rightarrow> c = CHR '','' \<or> c = CHR '']'' \<or> c = CHR ''}'')"

definition starter :: "char \<Rightarrow> bool" where
  "starter c = (\<not> is_ws c \<and> c \<noteq> CHR '']'' \<and> c \<noteq> CHR ''}'' \<and> c \<noteq> CHR '','')"

section \<open>The sanitizer \<^verbatim>\<open>stripUndefinedDeep\<close>\<close>

text \<open>
  The key lists of the two \<^verbatim>\<open>includes\<close> tests of the object loop.
\<close>

definition oversized_keys :: "string list" where
  "oversized_keys = [''heatmap'', ''pixel_diff'', ''ela_analysis'']"

definition heavy_keys :: "string list" where
  "heavy_keys = [''technical_details'', ''forensic_findings'', ''agent_logs'']"

text \<open>
  \<open>strip_elems\<close> is the \<^verbatim>\<open>map\<close> over an array and \<open>strip_fields\<close> the loop over
  \<^verbatim>\<open>Object.keys(obj)\<close>; the keys of an object are distinct and come in property
  order, so each assignment \<^verbatim>\<open>cleaned[key] = ...\<close> adds a new property after the ones
  already there. One key is different: \<^verbatim>\<open>cleaned\<close> is an object literal, and on it
  the assignment \<^verbatim>\<open>cleaned['__proto__'] = ...\<close> runs the setter of
  \<^verbatim>\<open>Object.prototype\<close>, which changes the prototype or does nothing and creates no
  property. An object read from JSON text can have a property of that name; the sanitizer
  loses it.
\<close>

definition proto_key :: string where
  "proto_key = ''__proto__''"

fun stripUndefinedDeep :: "jv \<Rightarrow> jv"
  and strip_elems :: "jv list \<Rightarrow> jv list"
  and strip_fields :: "doc \<Rightarrow> doc" where
  "stripUndefinedDeep JUndef = JNull"
| "stripUndefinedDeep JNull = JNull"
| "stripUndefinedDeep (JBool b) = JBool b"
| "stripUndefinedDeep (JNum n) = JNum n"
| "stripUndefinedDeep (JStr s) = JStr s"
| "stripUndefinedDeep (JArr xs) =
     (if (case xs of [] \<Rightarrow> False | x # _ \<Rightarrow> isArray x)
      then JSON_stringify (JArr xs)
      else JArr (filter (\<lambda>item. item \<noteq> JNull \<and> item \<noteq> JUndef) (strip_elems xs)))"
| "stripUndefinedDeep (JObj kvs) = JObj (strip_fields kvs)"
| "strip_elems [] = []"
| "strip_elems (x # xs) = stripUndefinedDeep x # strip_elems xs"
| "strip_fields [] = []"
| "strip_fields ((key, v) # kvs) =
     (if v = JUndef then strip_fields kvs
      else if key \<in> set oversized_keys then strip_fields kvs
      else if key \<in> set heavy_keys then
        (if truthy v \<and> \<not> isString v then (key, JSON_stringify v) # strip_fields kvs
         else if truthy v then (key, v) # strip_fields kvs
         else strip_fields kvs)
      else if stripUndefinedDeep v \<noteq> JUndef
        then (if key = proto_key then strip_fields kvs
              else (key, stripUndefinedDeep v) # strip_fields kvs)
      else strip_fields kvs)"

text \<open>
  Predicates on sanitizer inputs and outputs. \<open>clean v\<close>: the sanitizer has nothing to do
  on \<open>v\<close>. \<open>late_nested v\<close>: somewhere in \<open>v\<close>, where the sanitizer goes through an array
  entry by entry, the first entry that is neither \<^verbatim>\<open>null\<close> nor \<^verbatim>\<open>undefined\<close> is an
  array that the sanitizer keeps as an array, and it is not the first entry.
  \<open>no_undef v\<close>: \<^verbatim>\<open>undefined\<close> occurs nowhere in \<open>v\<close>.
\<close>

fun multi_dim :: "jv list \<Rightarrow> bool" where
  "multi_dim [] = False"
| "multi_dim (x # xs) = isArray x"

fun kept_array :: "jv \<Rightarrow> bool" where
  "kept_array (JArr xs) = (\<not> multi_dim xs)"
| "kept_array v = False"

definition defined_items :: "jv list \<Rightarrow> jv list" where
  "defined_items xs = filter (\<lambda>item. item \<noteq> JNull \<and> item \<noteq> JUndef) xs"

fun first_kept_array :: "jv list \<Rightarrow> bool" where
  "first_kept_array [] = False"
| "first_kept_array (x # xs) = kept_array x"

fun late_nested :: "jv \<Rightarrow> bool"
  and late_nested_elems :: "jv list \<Rightarrow> bool"
  and late_nested_fields :: "doc \<Rightarrow> bool" where
  "late_nested (JArr xs) =
     (\<not> multi_dim xs \<and> (first_kept_array (defined_items xs) \<or> late_nested_elems xs))"
| "late_nested (JObj kvs) = late_nested_fields kvs"
| "late_nested v = False"
| "late_nested_elems [] = False"
| "late_nested_elems (x # xs) = (late_nested x \<or> late_nested_elems xs)"
| "late_nested_fields [] = False"
| "late_nested_fields ((k, v) # kvs) =
     ((k \<notin> set oversized_keys \<and> k \<notin> set heavy_keys \<and> k \<noteq> proto_key \<and> late_nested v)
      \<or> late_nested_fields kvs)"

fun clean :: "jv \<Rightarrow> bool"
  and clean_elems :: "jv list \<Rightarrow> bool"
  and clean_fields :: "doc \<Rightarrow> bool" where
  "clean JUndef = False"
| "clean (JArr xs) = (\<not> multi_dim xs \<and> clean_elems xs)"
| "clean (JObj kvs) = clean_fields kvs"
| "clean v = True"
| "clean_elems [] = True"
| "clean_elems (x # xs) = (x \<noteq> JNull \<and> clean x \<and> clean_elems xs)"
| "clean_fields [] = True"
| "clean_fields ((k, v) # kvs) =
     (k \<notin> set oversized_keys \<and> k \<noteq> proto_key
      \<and> (if k \<in> set heavy_keys then isString v \<and> truthy v else clean v)
      \<and> clean_fields kvs)"


section \<open>Splitting the analysis into the main payload and the sidecar\<close>

text \<open>
  Lines 249 to 349 of \<^verbatim>\<open>analyzeReceiptAsync\<close>, which use nothing but the analyzer's
  result and the clock. A thrown \<^verbatim>\<open>Error\<close> is \<open>Inl\<close> of its message.
\<close>

definition safeParse :: "jv \<Rightarrow> jv" where
  "safeParse data =
     (case data of
        JStr s \<Rightarrow> (case JSON_parse s of None \<Rightarrow> data | Some v \<Rightarrow> v)
      | _ \<Rightarrow> data)"

text \<open>
  \<^verbatim>\<open>forensicDetails\<close> is \<^verbatim>\<open>step2.forensic_details || {}\<close> and the five assignments
  that follow write properties on it. On an object they are property writes; an array takes
  named properties too, and none of the names read later is set on it before; on a
  primitive the first assignment throws a \<^verbatim>\<open>TypeError\<close> (the compiled module is
  strict), with the message Node gives it.
\<close>

definition type_error_create_property :: "string \<Rightarrow> jv \<Rightarrow> string" where
  "type_error_create_property k v =
     ''Cannot create property '' @ [CHR 0x27] @ k @ [CHR 0x27] @ '' on '' @ js_typeof v @
     '' '' @ [CHR 0x27] @ js_to_string v @ [CHR 0x27]"

definition detail_fields :: "jv \<Rightarrow> string + doc" where
  "detail_fields fd =
     (case fd of
        JObj kvs \<Rightarrow> Inr kvs
      | JArr xs \<Rightarrow> Inr []
      | _ \<Rightarrow> Inl (type_error_create_property ''forensic_findings'' fd))"

text \<open>\<^verbatim>\<open>forensicDetails.k = safeParse(forensicDetails.k) || dflt\<close>\<close>

definition assign_parsed :: "doc \<Rightarrow> string \<Rightarrow> jv \<Rightarrow> doc" where
  "assign_parsed fd k dflt = obj_set fd k (js_or (safeParse (obj_get (JObj fd) k)) dflt)"

definition parse_nested :: "doc \<Rightarrow> doc" where
  "parse_nested fd0 =
     assign_parsed
       (assign_parsed
          (assign_parsed
             (assign_parsed
                (assign_parsed fd0 ''forensic_findings'' (JArr []))
                ''technical_details'' (JObj []))
             ''heatmap'' (JArr []))
          ''pixel_diff'' (JObj []))
       ''forensic_progress'' (JArr [])"

definition lightForensics :: "jv \<Rightarrow> jv \<Rightarrow> jv" where
  "lightForensics forensicDetails agentLogs =
     JObj
      [(''ocr_confidence'', obj_get forensicDetails ''ocr_confidence''),
       (''manipulation_score'', obj_get forensicDetails ''manipulation_score''),
       (''metadata_flags'', obj_get forensicDetails ''metadata_flags''),
       (''forensic_verdict'', obj_get forensicDetails ''forensic_verdict''),
       (''forensic_summary'', obj_get forensicDetails ''forensic_summary''),
       (''suspicious_regions_count'', obj_get forensicDetails ''suspicious_regions_count''),
       (''manipulation_detected'', obj_get forensicDetails ''manipulation_detected''),
       (''techniques_detected'', obj_get forensicDetails ''techniques_detected''),
       (''authenticity_indicators'', obj_get forensicDetails ''authenticity_indicators''),
       (''forensic_findings'',
          (case obj_get forensicDetails ''forensic_findings'' of
             JArr xs \<Rightarrow> JArr (take 5 xs)
           | other \<Rightarrow> other)),
       (''agent_logs'', agentLogs),
       (''forensic_progress'', js_or (obj_get forensicDetails ''forensic_progress'') (JArr []))]"

definition sidecarData :: "jv \<Rightarrow> jv \<Rightarrow> jv" where
  "sidecarData forensicDetails agentLogs =
     JObj
      [(''heatmap'', js_or (obj_get forensicDetails ''heatmap'') (JArr [])),
       (''pixel_diff'', js_or (obj_get forensicDetails ''pixel_diff'') (JObj [])),
       (''technical_details'', js_or (obj_get forensicDetails ''technical_details'') (JObj [])),
       (''ela_analysis'', js_or (obj_get forensicDetails ''ela_analysis'') (JObj [])),
       (''agent_logs'', agentLogs),
       (''forensic_progress'', js_or (obj_get forensicDetails ''forensic_progress'') (JArr [])),
       (''forensic_findings_full'', js_or (obj_get forensicDetails ''forensic_findings'') (JArr [])),
       (''image_dimensions'', obj_get forensicDetails ''image_dimensions''),
       (''statistics'', obj_get forensicDetails ''statistics'')]"

definition mainPayload :: "jv \<Rightarrow> jv \<Rightarrow> int \<Rightarrow> jv" where
  "mainPayload step2 light elapsed =
     JObj
      [(''ocr_text'', js_or (obj_get step2 ''ocr_text'') (JStr [])),
       (''analysis'',
          JObj
           [(''trust_score'', js_or (obj_get step2 ''trust_score'') (JNum 0)),
            (''verdict'', js_or (obj_get step2 ''verdict'') (JStr ''unknown'')),
            (''issues'', js_or (obj_get step2 ''issues'') (JArr [])),
            (''recommendation'', js_or (obj_get step2 ''recommendation'') (JStr [])),
            (''merchant'', js_or (obj_get step2 ''merchant'') JNull),
            (''forensic_details'', light)]),
       (''processing_time'', JNum elapsed),
       (''status'', JStr ''completed'')]"

text \<open>Layers 1 and 2: \<^verbatim>\<open>JSON.parse(JSON.stringify(stripUndefinedDeep(analysisResult)))\<close>.\<close>

definition layer12 :: "jv \<Rightarrow> jv option" where
  "layer12 analysisResult = JSON_parse (ser (stripUndefinedDeep analysisResult))"

text \<open>Layers 3 and 4: \<^verbatim>\<open>mainPayload\<close> and \<^verbatim>\<open>sidecarData\<close>, before they are cleaned.\<close>

definition layer34 :: "jv \<Rightarrow> int \<Rightarrow> string + (jv \<times> jv)" where
  "layer34 step2 elapsed =
     (case detail_fields (js_or (obj_get step2 ''forensic_details'') (JObj [])) of
        Inl e \<Rightarrow> Inl e
      | Inr fd0 \<Rightarrow>
          Inr (mainPayload step2
                 (lightForensics (JObj (parse_nested fd0))
                    (js_or (safeParse (obj_get step2 ''agent_logs'')) (JArr [])))
                 elapsed,
               sidecarData (JObj (parse_nested fd0))
                 (js_or (safeParse (obj_get step2 ''agent_logs'')) (JArr []))))"

text \<open>
  The size test on \<^verbatim>\<open>mainSize = JSON.stringify(cleanedMain).length\<close>, and the message of
  the error, in which \<^verbatim>\<open>(mainSize / 1024).toFixed(2)\<close> is the quotient rounded to two
  decimals.
\<close>

definition size_limit :: nat where
  "size_limit = 1048576"

definition two_digits :: "nat \<Rightarrow> string" where
  "two_digits n = [digit_char (n div 10), digit_char (n mod 10)]"

definition kb_toFixed2 :: "nat \<Rightarrow> string" where
  "kb_toFixed2 n =
     show_nat (((200 * n + 1024) div 2048) div 100) @
     CHR ''.'' # two_digits (((200 * n + 1024) div 2048) mod 100)"

definition too_large_message :: "nat \<Rightarrow> string" where
  "too_large_message mainSize =
     ''Main payload size '' @ kb_toFixed2 mainSize @ ''KB exceeds Firestore 1MB limit''"

definition size_check :: "jv \<Rightarrow> jv \<Rightarrow> string + (jv \<times> jv)" where
  "size_check cleanedMain cleanedSidecar =
     (if size_limit < length (ser cleanedMain)
      then Inl (too_large_message (length (ser cleanedMain)))
      else Inr (cleanedMain, cleanedSidecar))"

definition split_payloads :: "jv \<Rightarrow> int \<Rightarrow> string + (jv \<times> jv)" where
  "split_payloads analysisResult elapsed =
     (case layer12 analysisResult of
        None \<Rightarrow> Inl ''Unexpected token in JSON''
      | Some step2 \<Rightarrow>
          (case layer34 step2 elapsed of
             Inl e \<Rightarrow> Inl e
           | Inr (mp, sd) \<Rightarrow> size_check (stripUndefinedDeep mp) (stripUndefinedDeep sd)))"

section \<open>The store, the progress channel and the collaborators\<close>

text \<open>
  What the gateway emits to the room of a receipt: \<^verbatim>\<open>progress\<close> with its percent, status
  and message, \<^verbatim>\<open>complete\<close> with the record, \<^verbatim>\<open>error\<close> with the message.
\<close>

datatype event =
    Progress nat string string
  | Complete jv
  | Failure string

text \<open>
  The trace lists, in program order, what a run does outside itself: the events it emits,
  the calls to the analyzer and to the ledger, the reads and the writes it asks the store
  for, and after each write that the store accepted the record as it then stands.
\<close>

datatype action =
    Emit string event
  | CallAnalyzer string string
  | CallAnchor string jv
  | ReadDoc string
  | WriteSet string doc
  | WriteCommit string jv jv
  | WriteUpdate string doc
  | Stored string doc

record world =
  receipts :: "string \<Rightarrow> doc option"
  sidecars :: "string \<Rightarrow> jv option"
  trace :: "action list"

definition empty_world :: world where
  "empty_world = \<lparr>receipts = (\<lambda>r. None), sidecars = (\<lambda>r. None), trace = []\<rparr>"

record upload =
  secure_url :: string
  public_id :: string

record anchor =
  transaction_id :: string
  consensus_timestamp :: string
  message_hash :: string
  explorer_url :: string

definition anchor_jv :: "anchor \<Rightarrow> jv" where
  "anchor_jv a =
     JObj [(''transaction_id'', JStr (transaction_id a)),
           (''consensus_timestamp'', JStr (consensus_timestamp a)),
           (''message_hash'', JStr (message_hash a)),
           (''explorer_url'', JStr (explorer_url a))]"

record ai_error =
  err_code :: "string option"
  err_message :: string
  resp_detail :: jv
  resp_message :: jv

text \<open>
  The outcomes of one run's calls to its collaborators: the generated receipt id, the
  Cloudinary upload, the analyzer's HTTP response, the Hedera submission, each awaited
  Firestore operation (\<open>Some\<close> of the message when it rejects), the elapsed time and the
  server's timestamps.
\<close>

record env =
  receipt_id :: string
  upload_outcome :: "string + upload"
  set_failure :: "string option"
  upload_time :: jv
  analyzer_outcome :: "ai_error + jv"
  elapsed_ms :: int
  commit_failure :: "string option"
  anchor_outcome :: "string + anchor"
  anchor_update_failure :: "string option"
  get_failure :: "string option"
  failed_update_failure :: "string option"
  error_time :: jv

record dto =
  userId :: jv
  anchorOnHedera :: jv

definition log_action :: "action list \<Rightarrow> world \<Rightarrow> world" where
  "log_action as w = w\<lparr>trace := trace w @ as\<rparr>"

definition emitProgress :: "string \<Rightarrow> nat \<Rightarrow> string \<Rightarrow> string \<Rightarrow> world \<Rightarrow> world" where
  "emitProgress rid progress status message w =
     log_action [Emit rid (Progress progress status (if message = [] then status else message))] w"

definition emitComplete :: "string \<Rightarrow> jv \<Rightarrow> world \<Rightarrow> world" where
  "emitComplete rid data w = log_action [Emit rid (Complete data)] w"

definition emitError :: "string \<Rightarrow> string \<Rightarrow> world \<Rightarrow> world" where
  "emitError rid err w = log_action [Emit rid (Failure err)] w"

text \<open>\<^verbatim>\<open>ref.set(data)\<close>: the document is replaced.\<close>

definition doc_set :: "string option \<Rightarrow> string \<Rightarrow> doc \<Rightarrow> world \<Rightarrow> (string + unit) \<times> world" where
  "doc_set failure rid flds w =
     (case failure of
        Some m \<Rightarrow> (Inl m, log_action [WriteSet rid flds] w)
      | None \<Rightarrow>
          (Inr (), log_action [WriteSet rid flds, Stored rid flds]
                     (w\<lparr>receipts := (receipts w)(rid \<mapsto> flds)\<rparr>)))"

text \<open>\<^verbatim>\<open>ref.update(data)\<close>: the named fields are replaced; the document must exist.\<close>

definition update_fields :: "doc \<Rightarrow> doc \<Rightarrow> doc" where
  "update_fields d flds = foldl (\<lambda>acc (k, v). obj_set acc k v) d flds"

definition doc_update :: "string option \<Rightarrow> string \<Rightarrow> doc \<Rightarrow> world \<Rightarrow> (string + unit) \<times> world" where
  "doc_update failure rid flds w =
     (case failure of
        Some m \<Rightarrow> (Inl m, log_action [WriteUpdate rid flds] w)
      | None \<Rightarrow>
          (case receipts w rid of
             None \<Rightarrow> (Inl ''No document to update'', log_action [WriteUpdate rid flds] w)
           | Some d \<Rightarrow>
               (Inr (), log_action [WriteUpdate rid flds, Stored rid (update_fields d flds)]
                          (w\<lparr>receipts := (receipts w)(rid \<mapsto> update_fields d flds)\<rparr>))))"

text \<open>
  \<^verbatim>\<open>set(data, { merge: true })\<close>: every leaf of the data is written into the document, maps
  are merged field by field, an empty map replaces what was there.
\<close>

fun merge_value :: "jv \<Rightarrow> jv \<Rightarrow> jv"
  and merge_fields :: "doc \<Rightarrow> doc \<Rightarrow> doc" where
  "merge_value old (JObj new) =
     (if new = [] then JObj []
      else JObj (merge_fields (case old of JObj old_flds \<Rightarrow> old_flds | _ \<Rightarrow> []) new))"
| "merge_value old new = new"
| "merge_fields old [] = old"
| "merge_fields old ((k, v) # kvs) =
     merge_fields (obj_set old k (merge_value (obj_get (JObj old) k) v)) kvs"

text \<open>
  The batch of \<^verbatim>\<open>analyzeReceiptAsync\<close>: the main document merged into the receipt and the
  sidecar set under \<^verbatim>\<open>details/forensics\<close>, both or neither.
\<close>

definition batch_commit ::
  "string option \<Rightarrow> string \<Rightarrow> jv \<Rightarrow> jv \<Rightarrow> world \<Rightarrow> (string + unit) \<times> world" where
  "batch_commit failure rid cleanedMain cleanedSidecar w =
     (case failure of
        Some m \<Rightarrow> (Inl m, log_action [WriteCommit rid cleanedMain cleanedSidecar] w)
      | None \<Rightarrow>
          (case cleanedMain of
             JObj flds \<Rightarrow>
               (Inr (),
                log_action
                  [WriteCommit rid cleanedMain cleanedSidecar,
                   Stored rid (merge_fields (case receipts w rid of None \<Rightarrow> [] | Some d \<Rightarrow> d) flds)]
                  (w\<lparr>receipts := (receipts w)
                        (rid \<mapsto> merge_fields (case receipts w rid of None \<Rightarrow> [] | Some d \<Rightarrow> d) flds),
                      sidecars := (sidecars w)(rid \<mapsto> cleanedSidecar)\<rparr>))
           | _ \<Rightarrow>
               (Inl ''Value for argument data is not a valid Firestore document'',
                log_action [WriteCommit rid cleanedMain cleanedSidecar] w)))"

text \<open>
  \<^verbatim>\<open>HederaService.anchorToHCS\<close>: the hash is taken of \<^verbatim>\<open>JSON.stringify(data)\<close>, which
  is \<^verbatim>\<open>undefined\<close> for \<^verbatim>\<open>undefined\<close> data, and \<^verbatim>\<open>Hash.update\<close> then throws
  Node's \<^verbatim>\<open>ERR_INVALID_ARG_TYPE\<close>; otherwise the submission to the topic decides.
  Every error is thrown on to the caller.
\<close>

definition invalid_data_message :: string where
  "invalid_data_message =
     ''The '' @ [CHR 0x22] @ ''data'' @ [CHR 0x22] @
     '' argument must be of type string or an instance of Buffer, TypedArray, or DataView.'' @
     '' Received undefined''"

definition anchorToHCS :: "env \<Rightarrow> string \<Rightarrow> jv \<Rightarrow> world \<Rightarrow> (string + jv) \<times> world" where
  "anchorToHCS en entityId data w =
     (if JSON_stringify data = JUndef
      then (Inl invalid_data_message, log_action [CallAnchor entityId data] w)
      else (case anchor_outcome en of
              Inl m \<Rightarrow> (Inl m, log_action [CallAnchor entityId data] w)
            | Inr a \<Rightarrow> (Inr (anchor_jv a), log_action [CallAnchor entityId data] w)))"

section \<open>\<^verbatim>\<open>ReceiptsService\<close>\<close>

definition friendly_message :: "string \<Rightarrow> string" where
  "friendly_message message =
     (if js_includes message ''timeout''
        then ''Analysis timed out. The image might be too large. Please try a smaller image.''
      else if js_includes message ''unavailable'' \<or> js_includes message ''ECONNREFUSED''
        then ''Service temporarily unavailable. Please try again in a few minutes.''
      else if js_includes message ''invalid image'' \<or> js_includes message ''format''
        then ''Invalid image format. Please upload a JPG, PNG, or PDF file.''
      else if js_includes message ''too large'' \<or> js_includes message ''exceeds''
        then ''Analysis data is too large to store. This is a system limitation we are working to resolve.''
      else message)"

text \<open>\<^verbatim>\<open>const message = error.message || 'Unknown error'\<close>\<close>

definition getUserFriendlyError :: "string \<Rightarrow> string" where
  "getUserFriendlyError err_msg =
     friendly_message (if err_msg = [] then ''Unknown error'' else err_msg)"

text \<open>
  The inner \<^verbatim>\<open>catch\<close> of \<^verbatim>\<open>analyzeReceiptAsync\<close>: the message of the error it throws.
\<close>

definition classify_ai_error :: "ai_error \<Rightarrow> string" where
  "classify_ai_error e =
     (if err_code e = Some ''ECONNABORTED'' \<or> js_includes (err_message e) ''timeout''
        then ''AI analysis timed out. The image might be too large or the service is busy. Please try again.''
      else if err_code e = Some ''ECONNREFUSED'' \<or> err_code e = Some ''ENOTFOUND''
        then ''AI service is currently unavailable. Our team has been notified. Please try again in a few minutes.''
      else js_to_string
             (js_or (resp_detail e)
                (js_or (resp_message e)
                   (JStr ''AI analysis failed. Please try again with a clearer image.''))))"

text \<open>
  The log lines after the response (lines 205 to 221) evaluate
  \<^verbatim>\<open>Object.keys(analysisResult)\<close>, which throws on \<^verbatim>\<open>null\<close> and \<^verbatim>\<open>undefined\<close>, and
  \<^verbatim>\<open>analysisResult.ocr_text?.substring(0, 100)\<close>, which throws unless \<^verbatim>\<open>ocr_text\<close> is
  a string, \<^verbatim>\<open>null\<close> or \<^verbatim>\<open>undefined\<close>. They stand inside the inner \<^verbatim>\<open>try\<close>.
\<close>

definition inspect_response :: "jv \<Rightarrow> ai_error + jv" where
  "inspect_response analysisResult =
     (if analysisResult = JNull \<or> analysisResult = JUndef
      then Inl \<lparr>err_code = None, err_message = ''Cannot convert undefined or null to object'',
                resp_detail = JUndef, resp_message = JUndef\<rparr>
      else (case obj_get analysisResult ''ocr_text'' of
              JUndef \<Rightarrow> Inr analysisResult
            | JNull \<Rightarrow> Inr analysisResult
            | JStr s \<Rightarrow> Inr analysisResult
            | _ \<Rightarrow> Inl \<lparr>err_code = None,
                        err_message = ''analysisResult.ocr_text?.substring is not a function'',
                        resp_detail = JUndef, resp_message = JUndef\<rparr>))"

definition call_analyzer :: "env \<Rightarrow> string \<Rightarrow> string \<Rightarrow> world \<Rightarrow> (string + jv) \<times> world" where
  "call_analyzer en rid imageUrl w =
     (case analyzer_outcome en of
        Inl e \<Rightarrow> (Inl (classify_ai_error e), log_action [CallAnalyzer imageUrl rid] w)
      | Inr data \<Rightarrow>
          (case inspect_response data of
             Inl e \<Rightarrow> (Inl (classify_ai_error e), log_action [CallAnalyzer imageUrl rid] w)
           | Inr analysisResult \<Rightarrow>
               (Inr analysisResult, log_action [CallAnalyzer imageUrl rid] w)))"

text \<open>Lines 366 to 379: the optional anchoring, or the last progress event.\<close>

definition anchor_step :: "env \<Rightarrow> string \<Rightarrow> jv \<Rightarrow> jv \<Rightarrow> world \<Rightarrow> (string + unit) \<times> world" where
  "anchor_step en rid analysisResult anchorFlag w =
     (if truthy anchorFlag then
        (case anchorToHCS en rid analysisResult
                (emitProgress rid 90 ''hedera_anchoring'' ''Anchoring to blockchain...'' w) of
           (Inl m, w1) \<Rightarrow> (Inl m, w1)
         | (Inr hederaResult, w1) \<Rightarrow>
             (case doc_update (anchor_update_failure en) rid [(''hedera_anchor'', hederaResult)] w1 of
                (Inl m, w2) \<Rightarrow> (Inl m, w2)
              | (Inr u, w2) \<Rightarrow>
                  (Inr (), emitProgress rid 100 ''hedera_anchored'' ''Verified on blockchain!'' w2)))
      else (Inr (), emitProgress rid 100 ''complete'' ''Verification complete!'' w))"

text \<open>Lines 381 to 383: the record is read back and sent with the \<^verbatim>\<open>complete\<close> event.\<close>

definition send_final :: "env \<Rightarrow> string \<Rightarrow> world \<Rightarrow> (string + unit) \<times> world" where
  "send_final en rid w =
     (case get_failure en of
        Some m \<Rightarrow> (Inl m, log_action [ReadDoc rid] w)
      | None \<Rightarrow>
          (Inr (),
           emitComplete rid (case receipts w rid of None \<Rightarrow> JUndef | Some d \<Rightarrow> JObj d)
             (log_action [ReadDoc rid] w)))"

text \<open>Lines 352 to 383: the batch, the anchoring and the final event.\<close>

definition persist :: "env \<Rightarrow> string \<Rightarrow> jv \<Rightarrow> jv \<Rightarrow> jv \<Rightarrow> jv \<Rightarrow> world \<Rightarrow> (string + unit) \<times> world" where
  "persist en rid analysisResult anchorFlag cleanedMain cleanedSidecar w =
     (case batch_commit (commit_failure en) rid cleanedMain cleanedSidecar w of
        (Inl m, w1) \<Rightarrow> (Inl m, w1)
      | (Inr u, w1) \<Rightarrow>
          (case anchor_step en rid analysisResult anchorFlag w1 of
             (Inl m, w2) \<Rightarrow> (Inl m, w2)
           | (Inr u, w2) \<Rightarrow> send_final en rid w2))"

text \<open>The body of the outer \<^verbatim>\<open>try\<close> of \<^verbatim>\<open>analyzeReceiptAsync\<close>.\<close>

definition analyze_try :: "env \<Rightarrow> string \<Rightarrow> string \<Rightarrow> jv \<Rightarrow> world \<Rightarrow> (string + unit) \<times> world" where
  "analyze_try en rid imageUrl anchorFlag w =
     (case call_analyzer en rid imageUrl
             (emitProgress rid 40 ''forensics_running'' ''Running forensic analysis...''
               (emitProgress rid 20 ''ocr_started'' ''Extracting text with AI...'' w)) of
        (Inl m, w1) \<Rightarrow> (Inl m, w1)
      | (Inr analysisResult, w1) \<Rightarrow>
          (case split_payloads analysisResult (elapsed_ms en) of
             Inl m \<Rightarrow> (Inl m, emitProgress rid 80 ''analysis_complete'' ''Analysis complete!'' w1)
           | Inr (cleanedMain, cleanedSidecar) \<Rightarrow>
               persist en rid analysisResult anchorFlag cleanedMain cleanedSidecar
                 (emitProgress rid 80 ''analysis_complete'' ''Analysis complete!'' w1)))"

text \<open>
  The outer \<^verbatim>\<open>catch\<close> of \<^verbatim>\<open>analyzeReceiptAsync\<close>: the record is marked failed and
  the \<^verbatim>\<open>error\<close> event is emitted. When the update itself rejects, the handler throws
  and the event is not emitted.
\<close>

definition failure_fields :: "env \<Rightarrow> string \<Rightarrow> doc" where
  "failure_fields en m =
     [(''status'', JStr ''failed''),
      (''error'', JStr (getUserFriendlyError m)),
      (''error_timestamp'', error_time en)]"

definition on_failure :: "env \<Rightarrow> string \<Rightarrow> string \<Rightarrow> world \<Rightarrow> (string + unit) \<times> world" where
  "on_failure en rid m w =
     (case doc_update (failed_update_failure en) rid (failure_fields en m) w of
        (Inl m2, w1) \<Rightarrow> (Inl m2, w1)
      | (Inr u, w1) \<Rightarrow> (Inr (), emitError rid (getUserFriendlyError m) w1))"

text \<open>
  \<^verbatim>\<open>analyzeReceiptAsync\<close>. \<open>Inl\<close> is the rejection of its promise, which nothing
  awaits.
\<close>

definition analyzeReceiptAsync ::
  "env \<Rightarrow> string \<Rightarrow> string \<Rightarrow> jv \<Rightarrow> world \<Rightarrow> (string + unit) \<times> world" where
  "analyzeReceiptAsync en rid imageUrl anchorFlag w =
     (case analyze_try en rid imageUrl anchorFlag w of
        (Inr u, w1) \<Rightarrow> (Inr (), w1)
      | (Inl m, w1) \<Rightarrow> on_failure en rid m w1)"

text \<open>
  \<^verbatim>\<open>scanReceipt\<close>; \<open>new_receipt\<close> is the document it creates. The analysis is started
  and not awaited: the response does not depend on it, and the world returned is the one
  the background task leaves.
\<close>

definition new_receipt :: "env \<Rightarrow> dto \<Rightarrow> upload \<Rightarrow> doc" where
  "new_receipt en d uploadResult =
     [(''receipt_id'', JStr (receipt_id en)),
      (''user_id'', js_or (userId d) (JStr ''anonymous'')),
      (''storage_path'', JStr (secure_url uploadResult)),
      (''cloudinary_public_id'', JStr (public_id uploadResult)),
      (''upload_timestamp'', upload_time en),
      (''status'', JStr ''processing''),
      (''analysis'', JNull),
      (''hedera_anchor'', JNull)]"

definition scanReceipt :: "env \<Rightarrow> dto \<Rightarrow> world \<Rightarrow> (string + jv) \<times> world" where
  "scanReceipt en d w =
     (case upload_outcome en of
        Inl m \<Rightarrow> (Inl m, emitProgress (receipt_id en) 5 ''uploading'' ''Starting upload...'' w)
      | Inr uploadResult \<Rightarrow>
          (case doc_set (set_failure en) (receipt_id en) (new_receipt en d uploadResult)
                  (emitProgress (receipt_id en) 15 ''upload_complete'' ''Image uploaded successfully''
                    (emitProgress (receipt_id en) 5 ''uploading'' ''Starting upload...'' w)) of
             (Inl m, w1) \<Rightarrow> (Inl m, w1)
           | (Inr u, w1) \<Rightarrow>
               (Inr (JObj [(''success'', JBool True),
                           (''receiptId'', JStr (receipt_id en)),
                           (''message'', JStr ''Receipt scan initiated'')]),
                snd (analyzeReceiptAsync en (receipt_id en) (secure_url uploadResult)
                       (anchorOnHedera d) w1))))"

text \<open>\<^verbatim>\<open>anchorReceiptToHedera\<close>, the handler of \<^verbatim>\<open>POST /receipts/:id/anchor\<close>.\<close>

definition anchorReceiptToHedera :: "env \<Rightarrow> string \<Rightarrow> world \<Rightarrow> (string + jv) \<times> world" where
  "anchorReceiptToHedera en rid w =
     (case get_failure en of
        Some m \<Rightarrow> (Inl m, log_action [ReadDoc rid] w)
      | None \<Rightarrow>
          (case receipts w rid of
             None \<Rightarrow> (Inl ''Receipt not found'', log_action [ReadDoc rid] w)
           | Some receiptData \<Rightarrow>
               if truthy (obj_get (JObj receiptData) ''hedera_anchor'') then
                 (Inr (JObj [(''success'', JBool True),
                             (''message'', JStr ''Receipt already anchored''),
                             (''hedera_anchor'', obj_get (JObj receiptData) ''hedera_anchor'')]),
                  log_action [ReadDoc rid] w)
               else
                 (case anchorToHCS en rid (obj_get (JObj receiptData) ''analysis'')
                         (log_action [ReadDoc rid] w) of
                    (Inl m, w1) \<Rightarrow> (Inl m, w1)
                  | (Inr hederaResult, w1) \<Rightarrow>
                      (case doc_update (anchor_update_failure en) rid
                              [(''hedera_anchor'', hederaResult)] w1 of
                         (Inl m, w2) \<Rightarrow> (Inl m, w2)
                       | (Inr u, w2) \<Rightarrow>
                           (Inr (JObj [(''success'', JBool True),
                                       (''message'', JStr ''Successfully anchored to Hedera''),
                                       (''hedera_anchor'', hederaResult)]),
                            w2)))))"

section \<open>What a run shows\<close>

text \<open>
  The events emitted to the room of a receipt, the percents of the progress events among
  them, the terminal events, and the states of the record that the store has held.
\<close>

fun events_of :: "string \<Rightarrow> action list \<Rightarrow> event list" where
  "events_of rid [] = []"
| "events_of rid (Emit r e # tr) = (if r = rid then e # events_of rid tr else events_of rid tr)"
| "events_of rid (a # tr) = events_of rid tr"

fun percents :: "event list \<Rightarrow> nat list" where
  "percents [] = []"
| "percents (Progress p st msg # es) = p # percents es"
| "percents (e # es) = percents es"

fun is_terminal :: "event \<Rightarrow> bool" where
  "is_terminal (Progress p st msg) = False"
| "is_terminal (Complete data) = True"
| "is_terminal (Failure err) = True"

fun stored_docs :: "string \<Rightarrow> action list \<Rightarrow> doc list" where
  "stored_docs rid [] = []"
| "stored_docs rid (Stored r d # tr) = (if r = rid then d # stored_docs rid tr else stored_docs rid tr)"
| "stored_docs rid (a # tr) = stored_docs rid tr"

text \<open>The part of the trace that a run from \<open>w\<close> to \<open>w'\<close> has added.\<close>

definition new_actions :: "world \<Rightarrow> world \<Rightarrow> action list" where
  "new_actions w w' = drop (length (trace w)) (trace w')"

text \<open>
  The record invariant of the data model. A field that is absent reads as
  \<^verbatim>\<open>undefined\<close>; absent and \<^verbatim>\<open>null\<close> both count as null.
\<close>

definition nullish :: "jv \<Rightarrow> bool" where
  "nullish v = (v = JNull \<or> v = JUndef)"

definition record_inv :: "doc \<Rightarrow> bool" where
  "record_inv d =
     ((obj_get (JObj d) ''status'' = JStr ''completed'' \<longrightarrow>
         \<not> nullish (obj_get (JObj d) ''analysis'') \<and> nullish (obj_get (JObj d) ''error''))
      \<and> (obj_get (JObj d) ''status'' = JStr ''failed'' \<longrightarrow>
         \<not> nullish (obj_get (JObj d) ''error'')))"

definition terminal_status :: "doc \<Rightarrow> bool" where
  "terminal_status d =
     (obj_get (JObj d) ''status'' = JStr ''completed'' \<or> obj_get (JObj d) ''status'' = JStr ''failed'')"


text \<open>
  The \<^verbatim>\<open>catch\<close> block of \<^verbatim>\<open>analyzeReceiptAsync\<close> begins with the update that marks
  the record failed, and nothing else asks the store for an update with that status: the
  failure handler has run exactly when the trace holds such an update, accepted or not.
\<close>

fun failure_write :: "string \<Rightarrow> action \<Rightarrow> bool" where
  "failure_write rid (WriteUpdate r flds) =
     (r = rid \<and> obj_get (JObj flds) ''status'' = JStr ''failed'')"
| "failure_write rid a = False"

definition handler_ran :: "string \<Rightarrow> action list \<Rightarrow> bool" where
  "handler_ran rid tr = list_ex (failure_write rid) tr"


text \<open>
  A terminal event agrees with the record \<open>final\<close>: the \<^verbatim>\<open>complete\<close> event is emitted
  when the handler has not run, it carries the record, and the record is completed; the
  \<^verbatim>\<open>error\<close> event is emitted by the handler, the record is failed and its error field
  is the message of the event.
\<close>

fun closes :: "string \<Rightarrow> doc \<Rightarrow> bool \<Rightarrow> action \<Rightarrow> bool" where
  "closes rid final failed (Emit r (Complete data)) =
     (r = rid \<and> \<not> failed \<and> data = JObj final
      \<and> obj_get (JObj final) ''status'' = JStr ''completed'')"
| "closes rid final failed (Emit r (Failure err)) =
     (r = rid \<and> failed \<and> obj_get (JObj final) ''status'' = JStr ''failed''
      \<and> obj_get (JObj final) ''error'' = JStr err)"
| "closes rid final failed a = False"

text \<open>
  What holds of the actions that one job adds to the trace, from \<open>w\<close> to \<open>w'\<close>: the
  percents are in order, there is at most one terminal event, every state of the record
  meets the invariant, and the record is the last state written. When the failure handler
  has run and its update was refused, there is no terminal event. In every other run the
  last action is the one terminal event, it agrees with the record, and every write comes
  before it.
\<close>

definition run_summary :: "env \<Rightarrow> world \<Rightarrow> world \<Rightarrow> bool" where
  "run_summary en w w' =
     (sorted (percents (events_of (receipt_id en) (new_actions w w')))
      \<and> length (filter is_terminal (events_of (receipt_id en) (new_actions w w'))) \<le> 1
      \<and> list_all record_inv (stored_docs (receipt_id en) (new_actions w w'))
      \<and> stored_docs (receipt_id en) (new_actions w w') \<noteq> []
      \<and> receipts w' (receipt_id en) = Some (last (stored_docs (receipt_id en) (new_actions w w')))
      \<and> (if handler_ran (receipt_id en) (new_actions w w') \<and> failed_update_failure en \<noteq> None
         then filter is_terminal (events_of (receipt_id en) (new_actions w w')) = []
         else new_actions w w' \<noteq> []
            \<and> closes (receipt_id en) (last (stored_docs (receipt_id en) (new_actions w w')))
                 (handler_ran (receipt_id en) (new_actions w w')) (last (new_actions w w'))
            \<and> filter is_terminal (events_of (receipt_id en) (butlast (new_actions w w'))) = []
            \<and> stored_docs (receipt_id en) (butlast (new_actions w w'))
                = stored_docs (receipt_id en) (new_actions w w')))"

text \<open>A field of the record of a receipt, as a reader of the store finds it.\<close>

definition record_field :: "world \<Rightarrow> string \<Rightarrow> string \<Rightarrow> jv" where
  "record_field w rid k = (case receipts w rid of None \<Rightarrow> JUndef | Some d \<Rightarrow> obj_get (JObj d) k)"

section \<open>Example runs\<close>

text \<open>
  A job whose upload, analysis and writes all succeed and whose submitter asked for
  anchoring, on a ledger that refuses the submission; and a record that is still being
  processed.
\<close>

definition example_env :: env where
  "example_env =
     \<lparr>receipt_id = ''RCP-1'',
      upload_outcome = Inr \<lparr>secure_url = ''https://img/r1.jpg'', public_id = ''r1''\<rparr>,
      set_failure = None,
      upload_time = JNum 1000,
      analyzer_outcome = Inr (JObj [(''ocr_text'', JStr ''TOTAL 100'')]),
      elapsed_ms = 7,
      commit_failure = None,
      anchor_outcome = Inl ''INSUFFICIENT_PAYER_BALANCE'',
      anchor_update_failure = None,
      get_failure = None,
      failed_update_failure = None,
      error_time = JNum 2000\<rparr>"


definition example_dto :: dto where
  "example_dto = \<lparr>userId = JUndef, anchorOnHedera = JBool True\<rparr>"

definition example_anchor :: anchor where
  "example_anchor =
     \<lparr>transaction_id = ''0.0.7@1'', consensus_timestamp = ''1.5'',
      message_hash = ''ab12'', explorer_url = ''https://hashscan.io/testnet/transaction/0.0.7@1''\<rparr>"


definition processing_record :: doc where
  "processing_record =
     [(''receipt_id'', JStr ''RCP-2''), (''status'', JStr ''processing''),
      (''analysis'', JNull), (''hedera_anchor'', JNull)]"

definition example_world :: world where
  "example_world =
     \<lparr>receipts = (\<lambda>r. if r = ''RCP-2'' then Some processing_record else None),
      sidecars = (\<lambda>r. None), trace = []\<rparr>"
section \<open>Reading back what \<^verbatim>\<open>JSON.stringify\<close> wrote\<close>


lemma of_char_digit_char: "d < 10 \<Longrightarrow> (of_char (digit_char d) :: nat) = 48 + d"
  by (simp add: digit_char_def)

lemma is_digit_digit_char: "d < 10 \<Longrightarrow> is_digit (digit_char d)"
  by (simp add: is_digit_def of_char_digit_char)

lemma show_nat_nonempty: "show_nat n \<noteq> []"
  by (subst show_nat.simps) simp

lemma show_nat_digits: "c \<in> set (show_nat n) \<Longrightarrow> is_digit c"
proof (induction n arbitrary: c rule: show_nat.induct)
  case (1 n)
  show ?case
  proof (cases "n < 10")
    case True
    with "1.prems" show ?thesis
      by (subst (asm) show_nat.simps) (simp add: is_digit_digit_char)
  next
    case False
    with "1.prems" "1.IH" show ?thesis
      by (subst (asm) show_nat.simps) (auto simp: is_digit_digit_char)
  qed
qed

lemma digits_val_snoc: "digits_val (ds @ [c]) = 10 * digits_val ds + (of_char c - 48)"
  by (simp add: digits_val_def)

lemma digits_val_show_nat: "digits_val (show_nat n) = n"
proof (induction n rule: show_nat.induct)
  case (1 n)
  show ?case
  proof (cases "n < 10")
    case True
    then show ?thesis
      by (subst show_nat.simps) (simp add: digits_val_def of_char_digit_char)
  next
    case False
    with "1.IH" show ?thesis
      by (subst show_nat.simps) (simp add: digits_val_snoc of_char_digit_char)
  qed
qed

lemma show_nat_hd: "0 < n \<Longrightarrow> hd (show_nat n) \<noteq> CHR ''0''"
proof (induction n rule: show_nat.induct)
  case (1 n)
  show ?case
  proof (cases "n < 10")
    case True
    have "(of_char (digit_char n) :: nat) \<noteq> of_char (CHR ''0'')"
      using True "1.prems" by (simp add: of_char_digit_char)
    then have "digit_char n \<noteq> CHR ''0''" by auto
    then show ?thesis using True
      by (subst show_nat.simps) simp
  next
    case False
    then have "0 < n div 10" by simp
    with "1.IH" False have "hd (show_nat (n div 10)) \<noteq> CHR ''0''" by simp
    then show ?thesis using False
      by (subst show_nat.simps) (simp add: show_nat_nonempty)
  qed
qed

lemma show_nat_length_one: "n < 10 \<Longrightarrow> length (show_nat n) = 1"
  by (subst show_nat.simps) simp

lemma delim_not_digit: "delim (c # r) \<Longrightarrow> \<not> is_digit c"
  by (auto simp: delim_def is_digit_def)

lemma takeWhile_show_nat:
  "delim rest \<Longrightarrow> takeWhile is_digit (show_nat n @ rest) = show_nat n"
  by (cases rest) (auto simp: takeWhile_append show_nat_digits delim_not_digit
      intro!: takeWhile_eq_all_conv[THEN iffD2])

lemma dropWhile_show_nat:
  "delim rest \<Longrightarrow> dropWhile is_digit (show_nat n @ rest) = rest"
  by (cases rest) (auto simp: dropWhile_append show_nat_digits delim_not_digit)

lemma show_nat_no_leading_zero:
  "\<not> (hd (show_nat n) = CHR ''0'' \<and> 1 < length (show_nat n))"
proof (cases "n < 10")
  case True
  then show ?thesis by (simp add: show_nat_length_one)
next
  case False
  then show ?thesis using show_nat_hd [of n] by simp
qed

lemma show_nat_not_minus: "hd (show_nat n) \<noteq> CHR ''-''"
proof -
  have "hd (show_nat n) \<in> set (show_nat n)" by (simp add: show_nat_nonempty)
  then have "is_digit (hd (show_nat n))" by (rule show_nat_digits)
  then show ?thesis by (auto simp: is_digit_def)
qed

lemma delim_not_frac:
  "delim rest \<Longrightarrow>
   \<not> (case rest of [] \<Rightarrow> False | c # _ \<Rightarrow> c = CHR ''.'' \<or> c = CHR ''e'' \<or> c = CHR ''E'')"
  by (auto simp: delim_def split: list.splits)

lemma parse_number_show_nat:
  assumes "delim rest"
  shows "parse_number (show_nat n @ rest) = Some (int n, rest)"
proof -
  obtain c cs where sn: "show_nat n = c # cs"
    using show_nat_nonempty [of n] by (cases "show_nat n") auto
  have c: "c \<noteq> CHR ''-''" using show_nat_not_minus [of n] sn by simp
  show ?thesis
    using assms c show_nat_no_leading_zero [of n] delim_not_frac [OF assms]
      takeWhile_show_nat [OF assms, of n] dropWhile_show_nat [OF assms, of n]
    unfolding parse_number_def sn [symmetric]
    by (simp add: sn Let_def digits_val_show_nat [of n, unfolded sn] show_nat_nonempty)
qed

lemma parse_number_show_int:
  assumes "delim rest"
  shows "parse_number (show_int i @ rest) = Some (i, rest)"
proof (cases "i < 0")
  case False
  then show ?thesis
    using parse_number_show_nat [OF assms, of "nat i"] by (simp add: show_int_def)
next
  case True
  have "parse_number (CHR ''-'' # show_nat (nat (- i)) @ rest) = Some (i, rest)"
    using True assms show_nat_no_leading_zero [of "nat (- i)"] delim_not_frac [OF assms]
      takeWhile_show_nat [OF assms, of "nat (- i)"] dropWhile_show_nat [OF assms, of "nat (- i)"]
    unfolding parse_number_def
    by (simp add: Let_def digits_val_show_nat show_nat_nonempty)
  then show ?thesis using True by (simp add: show_int_def)
qed



lemma hex_val_hex_char: "d < 16 \<Longrightarrow> hex_val (hex_char d) = Some d"
  by (auto simp: hex_val_def hex_char_def Let_def)

lemma hex_val_zero: "hex_val (CHR ''0'') = Some 0"
  by (simp add: hex_val_def)

lemma char_eq_iff_nat: "(c = d) = ((of_char c :: nat) = of_char d)"
  by auto

lemma parse_string_body_char:
  "parse_string_body r = Some (s, t) \<Longrightarrow>
   parse_string_body (escape_char c @ r) = Some (c # s, t)"
proof -
  assume r: "parse_string_body r = Some (s, t)"
  have lt: "(of_char c :: nat) < 256" by simp
  consider (quote) "c = CHR 0x22" | (bs) "c = CHR 0x5C" | (b) "c = CHR 0x08"
    | (f) "c = CHR 0x0C" | (n) "c = CHR 0x0A" | (r) "c = CHR 0x0D" | (t) "c = CHR 0x09"
    | (ctl) "c \<noteq> CHR 0x22" "c \<noteq> CHR 0x5C" "c \<noteq> CHR 0x08" "c \<noteq> CHR 0x0C"
        "c \<noteq> CHR 0x0A" "c \<noteq> CHR 0x0D" "c \<noteq> CHR 0x09" "(of_char c :: nat) < 32"
    | (plain) "c \<noteq> CHR 0x22" "c \<noteq> CHR 0x5C" "\<not> (of_char c :: nat) < 32"
    by (cases "(of_char c :: nat) < 32") auto
  then show ?thesis
  proof cases
    case ctl
    have d: "(of_char c :: nat) div 16 < 16" "(of_char c :: nat) mod 16 < 16"
      using ctl(8) by auto
    have e: "escape_char c = [CHR 0x5C, CHR ''u'', CHR ''0'', CHR ''0'',
              hex_char (of_char c div 16), hex_char (of_char c mod 16)]"
      using ctl by (simp add: escape_char_def)
    show ?thesis
      using r ctl(8) by (simp add: e hex_val_zero hex_val_hex_char [OF d(1)]
          hex_val_hex_char [OF d(2)])
  next
    case plain
    then have "escape_char c = [c]"
      by (auto simp: escape_char_def)
    with plain r show ?thesis by simp
  qed (use r in \<open>simp_all add: escape_char_def unescape_def\<close>)
qed

lemma parse_string_body_escaped:
  "parse_string_body (concat (map escape_char s) @ CHR 0x22 # rest) = Some (s, rest)"
  by (induction s) (simp_all add: parse_string_body_char)


lemma ser_first:
  "json_value v \<Longrightarrow> \<exists>c r. ser v = c # r \<and> \<not> is_ws c"
proof (cases v)
  case (JNum n)
  obtain c r where "show_nat (nat \<bar>n\<bar>) = c # r"
    using show_nat_nonempty by (cases "show_nat (nat \<bar>n\<bar>)") auto
  moreover from this have "is_digit c"
    using show_nat_digits [of c "nat \<bar>n\<bar>"] by simp
  ultimately show ?thesis using JNum
    by (cases "n < 0") (auto simp: show_int_def is_ws_def is_digit_def abs_if)
qed (auto simp: is_ws_def quote_def)

lemma skip_ws_nonws: "\<not> is_ws c \<Longrightarrow> skip_ws (c # r) = c # r"
  by (simp add: skip_ws_def)

lemma skip_ws_delim: "delim rest \<Longrightarrow> skip_ws rest = rest"
  by (cases rest) (auto simp: delim_def skip_ws_def is_ws_def)



lemma show_int_first:
  "\<exists>c r. show_int i = c # r \<and> (is_digit c \<or> c = CHR ''-'')"
proof -
  obtain c r where cr: "show_nat (nat \<bar>i\<bar>) = c # r"
    using show_nat_nonempty by (cases "show_nat (nat \<bar>i\<bar>)") auto
  then have "is_digit c"
    using show_nat_digits [of c "nat \<bar>i\<bar>"] by simp
  with cr show ?thesis
    by (cases "i < 0") (auto simp: show_int_def abs_if)
qed

lemma ser_starter: "json_value v \<Longrightarrow> \<exists>c r. ser v = c # r \<and> starter c"
proof (cases v)
  case (JNum n)
  then show ?thesis using show_int_first [of n]
    by (auto simp: starter_def is_ws_def is_digit_def)
qed (auto simp: starter_def is_ws_def quote_def)

lemma skip_ws_starter: "starter c \<Longrightarrow> skip_ws (c # r) = c # r"
  by (simp add: skip_ws_def starter_def)

lemma not_index_nondigit: "\<not> is_digit c \<Longrightarrow> is_index (c # cs) = False"
  by (simp add: is_index_def)

lemma replace_value_absent: "k \<notin> fst ` set d \<Longrightarrow> replace_value d k v = d"
  by (induction d) auto

lemma map_of_replace_value:
  "k \<in> fst ` set d \<Longrightarrow>
   map_of (replace_value d k v) k' = (if k' = k then Some v else map_of d k')"
proof (induction d)
  case Nil
  then show ?case by simp
next
  case (Cons p d)
  obtain a b where p: "p = (a, b)" by (cases p)
  show ?case
  proof (cases "a = k")
    case True
    then show ?thesis using p by simp
  next
    case False
    then have "k \<in> fst ` set d" using Cons.prems p by auto
    then show ?thesis using Cons.IH False p by auto
  qed
qed

lemma map_of_insert_index:
  "k \<notin> fst ` set d \<Longrightarrow>
   map_of (insert_index d k v) k' = (if k' = k then Some v else map_of d k')"
  by (induction d) auto

lemma map_of_snoc:
  "k \<notin> fst ` set d \<Longrightarrow>
   map_of (d @ [(k, v)]) k' = (if k' = k then Some v else map_of d k')"
  by (induction d) auto

lemma map_of_obj_set:
  "map_of (obj_set d k v) k' = (if k' = k then Some v else map_of d k')"
proof (cases "k \<in> fst ` set d")
  case True
  then show ?thesis by (simp add: obj_set_def map_of_replace_value)
next
  case False
  then show ?thesis
    by (simp add: obj_set_def map_of_insert_index map_of_snoc del: map_of_append)
qed

lemma obj_get_obj_set:
  "obj_get (JObj (obj_set d k v)) k' = (if k' = k then v else obj_get (JObj d) k')"
  by (simp add: map_of_obj_set)

text \<open>On a key that is no array index the write replaces the value in place or adds it last.\<close>

lemma obj_set_plain:
  "\<not> is_index k \<Longrightarrow> obj_set [] k v = [(k, v)]"
  "\<not> is_index k \<Longrightarrow>
     obj_set ((k', v') # kvs) k v = (if k' = k then (k, v) # kvs else (k', v') # obj_set kvs k v)"
  by (auto simp: obj_set_def replace_value_absent)

lemmas plain_write = obj_set_plain not_index_nondigit is_digit_def

lemma insert_index_last:
  "list_all (\<lambda>p. is_index (fst p) \<and> digits_val (fst p) < digits_val k) acc \<Longrightarrow>
   insert_index acc k v = acc @ [(k, v)]"
  by (induction acc) auto

lemma key_order_before:
  "key_order (xs @ k # ys) \<Longrightarrow> a \<in> set xs \<Longrightarrow> is_index k \<Longrightarrow>
   is_index a \<and> digits_val a < digits_val k"
  by (induction xs) (auto simp: list_all_iff split: if_splits)

lemma key_order_tail: "key_order (xs @ ys) \<Longrightarrow> key_order ys"
  by (induction xs) auto

lemma obj_set_last:
  assumes "k \<notin> fst ` set acc" and "key_order (map fst acc @ k # ks)"
  shows "obj_set acc k v = acc @ [(k, v)]"
proof (cases "is_index k")
  case True
  have "list_all (\<lambda>p. is_index (fst p) \<and> digits_val (fst p) < digits_val k) acc"
    using key_order_before [OF assms(2) _ True] by (auto simp: list_all_iff)
  then show ?thesis using assms(1) True by (simp add: obj_set_def insert_index_last)
next
  case False
  then show ?thesis using assms(1) by (simp add: obj_set_def)
qed

lemma foldl_obj_set:
  "distinct (map fst (acc @ kvs)) \<Longrightarrow> key_order (map fst (acc @ kvs)) \<Longrightarrow>
   foldl (\<lambda>acc (k, v). obj_set acc k v) acc kvs = acc @ kvs"
proof (induction kvs arbitrary: acc)
  case Nil
  then show ?case by simp
next
  case (Cons p kvs)
  obtain k v where p: "p = (k, v)" by (cases p)
  have fresh: "k \<notin> fst ` set acc" using Cons.prems p by auto
  have "obj_set acc k v = acc @ [(k, v)]"
    using fresh Cons.prems(2) p by (simp add: obj_set_last)
  with Cons.IH [of "acc @ [(k, v)]"] Cons.prems p show ?case by simp
qed

lemma mk_obj_distinct:
  "distinct (map fst kvs) \<Longrightarrow> key_order (map fst kvs) \<Longrightarrow> mk_obj kvs = JObj kvs"
  using foldl_obj_set [of "[]" kvs] by (simp add: mk_obj_def)

lemma commas_first: "\<exists>r. commas ((c # s) # ss) = c # r"
  by (cases ss) auto

lemma parse_value_num:
  assumes "delim rest"
  shows "parse_value (Suc n) (show_int i @ rest) = Some (JNum i, rest)"
proof -
  obtain c r where cr: "show_int i = c # r" and c: "is_digit c \<or> c = CHR ''-''"
    using show_int_first by blast
  have nw: "\<not> is_ws c" and ne: "c \<noteq> CHR ''[''" "c \<noteq> CHR ''{''" "c \<noteq> CHR 0x22"
    "c \<noteq> CHR ''t''" "c \<noteq> CHR ''f''" "c \<noteq> CHR ''n''"
    using c by (auto simp: is_ws_def is_digit_def)
  have "parse_number (c # r @ rest) = Some (i, rest)"
    using parse_number_show_int [OF assms, of i] cr by simp
  then show ?thesis using nw ne by (simp add: cr skip_ws_def)
qed

lemma roundtrip_aux:
  "json_value v \<Longrightarrow> fuel v \<le> n \<Longrightarrow> delim rest \<Longrightarrow>
     parse_value n (ser v @ rest) = Some (v, rest)"
  "json_values xs \<Longrightarrow> xs \<noteq> [] \<Longrightarrow> fuel_elems xs \<le> n \<Longrightarrow>
     parse_elems n (commas (ser_elems xs) @ CHR '']'' # rest) = Some (xs, rest)"
  "json_fields kvs \<Longrightarrow> kvs \<noteq> [] \<Longrightarrow> fuel_fields kvs \<le> n \<Longrightarrow>
     parse_members n (commas (ser_members kvs) @ CHR ''}'' # rest) = Some (kvs, rest)"
proof (induction v and xs and kvs arbitrary: n rest and n rest and n rest
    rule: json_value_json_values_json_fields.induct)
  case 1
  then show ?case by simp
next
  case 2
  then obtain m where "n = Suc m" by (cases n) auto
  then show ?case by (simp add: skip_ws_def is_ws_def)
next
  case (3 b)
  then obtain m where "n = Suc m" by (cases n) auto
  then show ?case by (simp add: skip_ws_def is_ws_def)
next
  case (4 i)
  then obtain m where n: "n = Suc m" by (cases n) auto
  have "parse_value (Suc m) (show_int i @ rest) = Some (JNum i, rest)"
    using 4(3) by (rule parse_value_num)
  then show ?case by (simp only: n ser.simps)
next
  case (5 s)
  then obtain m where "n = Suc m" by (cases n) auto
  then show ?case
    by (simp add: quote_def skip_ws_def is_ws_def parse_string_body_escaped)
next
  case (6 xs)
  then obtain m where n: "n = Suc m" by (cases n) auto
  show ?case
  proof (cases xs)
    case Nil
    then show ?thesis using n by (simp add: skip_ws_def is_ws_def)
  next
    case (Cons y ys)
    have jy: "json_value y" using 6(2) Cons by simp
    obtain c r where cr: "ser y = c # r" and st: "starter c"
      using ser_starter [OF jy] by blast
    obtain r' where r': "commas (ser_elems xs) = c # r'"
      using Cons cr commas_first [of c r "ser_elems ys"] by auto
    have pe: "parse_elems m (commas (ser_elems xs) @ CHR '']'' # rest) = Some (xs, rest)"
      using 6 n Cons by simp
    have nb: "c \<noteq> CHR '']''" using st by (simp add: starter_def)
    have sk: "\<And>t. skip_ws (CHR ''['' # t) = CHR ''['' # t"
      by (simp add: skip_ws_def is_ws_def)
    show ?thesis
      using pe nb by (simp add: n r' skip_ws_starter [OF st] sk)
  qed
next
  case (7 kvs)
  then obtain m where n: "n = Suc m" by (cases n) auto
  show ?case
  proof (cases kvs)
    case Nil
    then show ?thesis using n by (simp add: skip_ws_def is_ws_def)
  next
    case (Cons p ps)
    obtain k v where p: "p = (k, v)" by (cases p)
    have jv: "v \<noteq> JUndef" using 7(2) Cons p by auto
    obtain r' where r': "commas (ser_members kvs) = CHR 0x22 # r'"
      using Cons p jv commas_first [of "CHR 0x22" _ "ser_members ps"]
      by (auto simp: quote_def)
    have pe: "parse_members m (commas (ser_members kvs) @ CHR ''}'' # rest) = Some (kvs, rest)"
      using 7 n Cons by simp
    have d: "distinct (map fst kvs)" and ko: "key_order (map fst kvs)" using 7(2) by simp_all
    show ?thesis
      using pe by (simp add: n r' skip_ws_def is_ws_def mk_obj_distinct [OF d ko])
  qed
next
  case 8
  then show ?case by simp
next
  case (9 x xs)
  then obtain m where n: "n = Suc m" by (cases n) auto
  have fx: "fuel x \<le> m" and fxs: "fuel_elems xs \<le> m" using 9(5) n by auto
  have jx: "json_value x" and jxs: "json_values xs" using 9(3) by auto
  show ?case
  proof (cases xs)
    case Nil
    have "parse_value m (ser x @ CHR '']'' # rest) = Some (x, CHR '']'' # rest)"
      using 9(1) [OF jx fx] by (simp add: delim_def)
    then show ?thesis using Nil n by (simp add: skip_ws_def is_ws_def)
  next
    case (Cons y ys)
    let ?tail = "commas (ser_elems xs) @ CHR '']'' # rest"
    have "parse_value m (ser x @ CHR '','' # ?tail) = Some (x, CHR '','' # ?tail)"
      using 9(1) [OF jx fx] by (simp add: delim_def)
    moreover have "parse_elems m ?tail = Some (xs, rest)"
      using 9(2) [OF jxs _ fxs] Cons by simp
    ultimately show ?thesis using Cons n by (simp add: skip_ws_def is_ws_def)
  qed
next
  case 10
  then show ?case by simp
next
  case (11 k v kvs)
  then obtain m where n: "n = Suc m" by (cases n) auto
  have fx: "fuel v \<le> m" and fxs: "fuel_fields kvs \<le> m" using 11(5) n by auto
  have jx: "json_value v" and jxs: "json_fields kvs" using 11(3) by auto
  have nu: "v \<noteq> JUndef" using jx by auto
  have key: "\<And>t. parse_string_body (concat (map escape_char k) @ CHR 0x22 # t) = Some (k, t)"
    by (rule parse_string_body_escaped)
  show ?case
  proof (cases kvs)
    case Nil
    have "parse_value m (ser v @ CHR ''}'' # rest) = Some (v, CHR ''}'' # rest)"
      using 11(1) [OF jx fx] by (simp add: delim_def)
    then show ?thesis using Nil n nu key
      by (simp add: skip_ws_def is_ws_def quote_def)
  next
    case (Cons y ys)
    let ?tail = "commas (ser_members kvs) @ CHR ''}'' # rest"
    have "parse_value m (ser v @ CHR '','' # ?tail) = Some (v, CHR '','' # ?tail)"
      using 11(1) [OF jx fx] by (simp add: delim_def)
    moreover have "parse_members m ?tail = Some (kvs, rest)"
      using 11(2) [OF jxs _ fxs] Cons by simp
    moreover obtain s ss where "ser_members kvs = s # ss"
      using Cons jxs by (cases y; cases "snd y = JUndef") auto
    ultimately show ?thesis using n nu key
      by (simp add: skip_ws_def is_ws_def quote_def)
  qed
qed


lemma ser_nonempty: "ser v \<noteq> []"
  by (cases v) (auto simp: quote_def show_int_def show_nat_nonempty)

lemma length_commas_ge: "length s \<le> length (commas (s # ss))"
  by (cases ss) auto

lemma fuel_le_length:
  "json_value v \<Longrightarrow> fuel v \<le> length (ser v)"
  "json_values xs \<Longrightarrow> fuel_elems xs \<le> Suc (length (commas (ser_elems xs)))"
  "json_fields kvs \<Longrightarrow> fuel_fields kvs \<le> Suc (length (commas (ser_members kvs)))"
proof (induction v and xs and kvs rule: json_value_json_values_json_fields.induct)
  case (4 n)
  then show ?case using ser_nonempty [of "JNum n"] by (simp add: Suc_le_eq)
next
  case (5 s)
  then show ?case by (simp add: quote_def)
next
  case (9 x xs)
  then show ?case using ser_nonempty [of x]
    by (cases xs) (auto simp: Suc_le_eq)
next
  case (11 k v kvs)
  then show ?case using ser_nonempty [of v]
    by (cases kvs) (auto simp: Suc_le_eq quote_def split: if_splits)
qed auto

theorem JSON_roundtrip:
  assumes "json_value v"
  shows "JSON_parse (ser v) = Some v"
proof -
  have "fuel v \<le> 2 * length (ser v) + 2"
    using fuel_le_length(1) [OF assms] by simp
  then have "parse_value (2 * length (ser v) + 2) (ser v @ []) = Some (v, [])"
    by (rule roundtrip_aux(1) [OF assms]) (simp add: delim_def)
  then have "parse_value (2 * length (ser v) + 2) (ser v) = Some (v, [])"
    by (simp only: append_Nil2)
  then show ?thesis
    by (simp add: JSON_parse_def skip_ws_def del: parse_value.simps)
qed

section \<open>Properties of the sanitizer\<close>

lemma proto_key_plain [simp]:
  "proto_key \<notin> set heavy_keys" "proto_key \<notin> set oversized_keys"
  by (simp_all add: proto_key_def heavy_keys_def oversized_keys_def)

lemma JSON_stringify_defined: "v \<noteq> JUndef \<Longrightarrow> JSON_stringify v = JStr (ser v)"
  by (simp add: JSON_stringify_def)

lemma truthy_defined: "truthy v \<Longrightarrow> v \<noteq> JUndef"
  by (cases v) auto

lemma multi_dim_case: "(case xs of [] \<Rightarrow> False | x # _ \<Rightarrow> isArray x) = multi_dim xs"
  by (cases xs) auto

lemma strip_not_undef: "stripUndefinedDeep v \<noteq> JUndef"
  by (cases v) (auto simp: JSON_stringify_def)

lemma strip_null_iff: "stripUndefinedDeep v = JNull \<longleftrightarrow> v = JNull \<or> v = JUndef"
  by (cases v) (auto simp: JSON_stringify_def)

lemma strip_elems_map: "strip_elems xs = map stripUndefinedDeep xs"
  by (induction xs) auto

lemma filter_strip_elems:
  "filter (\<lambda>item. item \<noteq> JNull \<and> item \<noteq> JUndef) (strip_elems xs) =
   map stripUndefinedDeep (defined_items xs)"
  by (induction xs) (auto simp: defined_items_def strip_null_iff strip_not_undef)

lemma strip_array:
  "stripUndefinedDeep (JArr xs) =
     (if multi_dim xs then JStr (ser (JArr xs))
      else JArr (map stripUndefinedDeep (defined_items xs)))"
  by (simp add: multi_dim_case filter_strip_elems JSON_stringify_def)

lemma isArray_strip: "isArray (stripUndefinedDeep v) = kept_array v"
  by (cases v) (auto simp: strip_array simp del: stripUndefinedDeep.simps(6))



lemma clean_defined: "clean v \<Longrightarrow> v \<noteq> JUndef"
  by (cases v) auto

lemma clean_elems_filter:
  "clean_elems xs \<Longrightarrow> filter (\<lambda>item. item \<noteq> JNull \<and> item \<noteq> JUndef) xs = xs"
  by (induction xs) (auto dest: clean_defined)

lemma clean_strip:
  "clean v \<Longrightarrow> stripUndefinedDeep v = v"
  "clean_elems xs \<Longrightarrow> strip_elems xs = xs"
  "clean_fields kvs \<Longrightarrow> strip_fields kvs = kvs"
proof (induction v and xs and kvs rule: stripUndefinedDeep_strip_elems_strip_fields.induct)
  case (6 xs)
  then show ?case
    by (auto simp: multi_dim_case clean_elems_filter)
next
  case (11 key v kvs)
  then show ?case
    by (cases v) (auto split: if_splits)
qed auto

lemma clean_elems_map:
  "clean_elems (map f xs) = (\<forall>x \<in> set xs. f x \<noteq> JNull \<and> clean (f x))"
  by (induction xs) auto

lemma set_defined_items: "set (defined_items xs) = {x \<in> set xs. x \<noteq> JNull \<and> x \<noteq> JUndef}"
  by (auto simp: defined_items_def)

lemma late_nested_elems_iff: "late_nested_elems xs = (\<exists>x \<in> set xs. late_nested x)"
  by (induction xs) auto

lemma multi_dim_map_strip:
  "multi_dim (map stripUndefinedDeep ys) = first_kept_array ys"
  by (cases ys) (auto simp: isArray_strip)

lemma show_int_nonempty: "show_int i \<noteq> []"
  by (simp add: show_int_def show_nat_nonempty)

lemma not_late_nested_clean:
  "\<not> late_nested v \<Longrightarrow> clean (stripUndefinedDeep v)"
  "\<not> late_nested_elems xs \<Longrightarrow> \<forall>x \<in> set xs. clean (stripUndefinedDeep x)"
  "\<not> late_nested_fields kvs \<Longrightarrow> clean_fields (strip_fields kvs)"
proof (induction v and xs and kvs rule: stripUndefinedDeep_strip_elems_strip_fields.induct)
  case (6 xs)
  show ?case
  proof (cases "multi_dim xs")
    case True
    then show ?thesis by (simp add: strip_array del: stripUndefinedDeep.simps(6))
  next
    case False
    with 6 have a: "\<not> first_kept_array (defined_items xs)" and b: "\<not> late_nested_elems xs"
      by auto
    have "\<forall>x \<in> set xs. clean (stripUndefinedDeep x)"
      using 6(1) False b by (simp add: multi_dim_case)
    then show ?thesis using False a
      by (simp add: strip_array clean_elems_map set_defined_items strip_null_iff
          multi_dim_map_strip del: stripUndefinedDeep.simps(6))
  qed
next
  case (11 key v kvs)
  then show ?case
    by (cases v) (auto simp: JSON_stringify_def show_int_nonempty strip_not_undef)
qed auto

lemma strip_fields_keys: "fst ` set (strip_fields kvs) \<subseteq> fst ` set kvs"
proof (induction kvs)
  case Nil
  then show ?case by simp
next
  case (Cons p kvs)
  obtain k v where "p = (k, v)" by (cases p)
  with Cons show ?case
    by (auto split: if_splits)
qed

lemma strip_fields_no_oversized:
  "k \<in> set oversized_keys \<Longrightarrow> k \<notin> fst ` set (strip_fields kvs)"
proof (induction kvs)
  case Nil
  then show ?case by simp
next
  case (Cons p kvs)
  obtain k' v where "p = (k', v)" by (cases p)
  with Cons show ?case
    by (auto split: if_splits)
qed

lemma map_of_strip_oversized:
  "k \<in> set oversized_keys \<Longrightarrow> map_of (strip_fields kvs) k = None"
  using strip_fields_no_oversized [of k kvs] by (simp add: map_of_eq_None_iff)


lemma strip_fields_no_proto: "proto_key \<notin> fst ` set (strip_fields kvs)"
proof (induction kvs)
  case Nil
  then show ?case by simp
next
  case (Cons p kvs)
  obtain k' v where "p = (k', v)" by (cases p)
  with Cons show ?case
    by (auto simp: heavy_keys_def proto_key_def split: if_splits)
qed

lemma map_of_strip_proto: "map_of (strip_fields kvs) proto_key = None"
  using strip_fields_no_proto [of kvs] by (simp add: map_of_eq_None_iff)




lemma distinct_strip_fields:
  "distinct (map fst kvs) \<Longrightarrow> distinct (map fst (strip_fields kvs))"
proof (induction kvs)
  case Nil
  then show ?case by simp
next
  case (Cons p kvs)
  obtain k v where p: "p = (k, v)" by (cases p)
  have "k \<notin> fst ` set (strip_fields kvs)"
    using Cons.prems p strip_fields_keys [of kvs] by auto
  with Cons p show ?case by auto
qed

lemma key_order_strip_fields:
  "key_order (map fst kvs) \<Longrightarrow> key_order (map fst (strip_fields kvs))"
proof (induction kvs)
  case Nil
  then show ?case by simp
next
  case (Cons p kvs)
  obtain k v where p: "p = (k, v)" by (cases p)
  have ko: "key_order (map fst (strip_fields kvs))" using Cons p by simp
  have "list_all (\<lambda>k'. if is_index k' then is_index k \<and> digits_val k < digits_val k' else True)
      (map fst kvs)"
    using Cons.prems p by simp
  moreover have "set (map fst (strip_fields kvs)) \<subseteq> set (map fst kvs)"
    using strip_fields_keys [of kvs] by simp
  ultimately have "list_all (\<lambda>k'. if is_index k' then is_index k \<and> digits_val k < digits_val k' else True)
      (map fst (strip_fields kvs))"
    unfolding list_all_iff by blast
  with ko p show ?case by simp
qed

lemma json_values_filter: "json_values xs \<Longrightarrow> json_values (filter P xs)"
  by (induction xs) auto

lemma json_strip:
  "json_value v \<Longrightarrow> json_value (stripUndefinedDeep v)"
  "json_values xs \<Longrightarrow> json_values (strip_elems xs)"
  "json_fields kvs \<Longrightarrow> json_fields (strip_fields kvs)"
proof (induction v and xs and kvs rule: stripUndefinedDeep_strip_elems_strip_fields.induct)
  case (6 xs)
  then show ?case
    by (auto simp: JSON_stringify_def json_values_filter)
next
  case (7 kvs)
  then show ?case by (simp add: distinct_strip_fields key_order_strip_fields)
next
  case (11 key v kvs)
  then show ?case
    by (cases v) (auto simp: JSON_stringify_def)
qed auto

lemma json_value_defined: "json_value v \<Longrightarrow> v \<noteq> JUndef"
  by (cases v) auto



section \<open>The sanitizer: undefined, null and idempotence\<close>






lemma strip_fields_fixpoint:
  "strip_fields (strip_fields kvs) = strip_fields kvs \<Longrightarrow>
   (k, v) \<in> set kvs \<Longrightarrow> v \<noteq> JUndef \<Longrightarrow> k \<notin> set oversized_keys \<Longrightarrow> k \<notin> set heavy_keys \<Longrightarrow>
   k \<noteq> proto_key \<Longrightarrow>
   stripUndefinedDeep (stripUndefinedDeep v) = stripUndefinedDeep v"
proof (induction kvs)
  case Nil
  then show ?case by simp
next
  case (Cons p kvs)
  obtain k' v' where p: "p = (k', v')" by (cases p)
  show ?case
  proof (cases "(k, v) = p")
    case True
    then show ?thesis using Cons.prems p by (simp add: strip_not_undef)
  next
    case False
    then have mem: "(k, v) \<in> set kvs" using Cons.prems(2) by simp
    have "strip_fields (strip_fields kvs) = strip_fields kvs"
      using Cons.prems(1) p
      by (cases v') (auto simp: strip_not_undef JSON_stringify_def show_int_nonempty
          split: if_splits)
    then show ?thesis using Cons.IH mem Cons.prems by simp
  qed
qed

lemma late_nested_fields_iff:
  "late_nested_fields kvs =
     (\<exists>(k, v) \<in> set kvs. k \<notin> set oversized_keys \<and> k \<notin> set heavy_keys \<and> k \<noteq> proto_key
        \<and> late_nested v)"
  by (induction kvs) auto

lemma late_nested_defined: "late_nested v \<Longrightarrow> v \<noteq> JUndef \<and> v \<noteq> JNull"
  by (cases v) auto

lemma defined_items_strip:
  "defined_items (map stripUndefinedDeep (defined_items xs)) =
   map stripUndefinedDeep (defined_items xs)"
  by (induction xs) (auto simp: defined_items_def strip_null_iff strip_not_undef)

lemma fixpoint_not_late_nested:
  "stripUndefinedDeep (stripUndefinedDeep v) = stripUndefinedDeep v \<Longrightarrow> \<not> late_nested v"
  "(\<forall>x \<in> set xs. x \<noteq> JNull \<and> x \<noteq> JUndef \<longrightarrow>
       stripUndefinedDeep (stripUndefinedDeep x) = stripUndefinedDeep x)
     \<Longrightarrow> \<not> late_nested_elems xs"
  "strip_fields (strip_fields kvs) = strip_fields kvs \<Longrightarrow> \<not> late_nested_fields kvs"
proof (induction v and xs and kvs rule: late_nested_late_nested_elems_late_nested_fields.induct)
  case (1 xs)
  show ?case
  proof (cases "multi_dim xs")
    case True
    then show ?thesis by simp
  next
    case False
    let ?ys = "map stripUndefinedDeep (defined_items xs)"
    have fp: "stripUndefinedDeep (JArr ?ys) = JArr ?ys"
      using 1(2) False by (simp add: strip_array del: stripUndefinedDeep.simps(6))
    have nm: "\<not> multi_dim ?ys"
      using fp by (auto simp: strip_array simp del: stripUndefinedDeep.simps(6) split: if_splits)
    then have "map stripUndefinedDeep (defined_items ?ys) = ?ys"
      using fp by (simp add: strip_array del: stripUndefinedDeep.simps(6))
    then have "map stripUndefinedDeep ?ys = ?ys" by (simp only: defined_items_strip)
    then have "map (\<lambda>x. stripUndefinedDeep (stripUndefinedDeep x)) (defined_items xs) =
        map stripUndefinedDeep (defined_items xs)"
      by (simp add: o_def)
    then have "\<forall>x \<in> set (defined_items xs).
        stripUndefinedDeep (stripUndefinedDeep x) = stripUndefinedDeep x"
      by (simp only: map_eq_conv)
    then have "\<not> late_nested_elems xs"
      using 1(1) False by (simp add: set_defined_items)
    then show ?thesis using nm by (simp add: multi_dim_map_strip)
  qed
next
  case (2 kvs)
  then show ?case by simp
next
  case (5 x xs)
  then show ?case by (auto dest: late_nested_defined)
next
  case (7 k v kvs)
  have tail: "strip_fields (strip_fields kvs) = strip_fields kvs"
    using 7(3)
    by (cases v) (auto simp: strip_not_undef JSON_stringify_def show_int_nonempty
        split: if_splits)
  have hd: "k \<notin> set oversized_keys \<Longrightarrow> k \<notin> set heavy_keys \<Longrightarrow> k \<noteq> proto_key \<Longrightarrow>
      late_nested v \<Longrightarrow> False"
  proof -
    assume a: "k \<notin> set oversized_keys" "k \<notin> set heavy_keys" "k \<noteq> proto_key" "late_nested v"
    then have "v \<noteq> JUndef" by (auto dest: late_nested_defined)
    then have "stripUndefinedDeep (stripUndefinedDeep v) = stripUndefinedDeep v"
      using strip_fields_fixpoint [OF 7(3), of k v] a by simp
    with 7(1) a show False by simp
  qed
  show ?case using 7(2) [OF tail] hd by auto
qed auto

text \<open>
  The inputs on which a second run of the sanitizer changes nothing: those with no array,
  among the arrays it goes through entry by entry, whose first entry that is neither
  \<^verbatim>\<open>null\<close> nor \<^verbatim>\<open>undefined\<close> is an array kept as an array.
\<close>

lemma sanitizer_fixpoint_iff:
  "stripUndefinedDeep (stripUndefinedDeep x) = stripUndefinedDeep x \<longleftrightarrow> \<not> late_nested x"
proof
  assume "stripUndefinedDeep (stripUndefinedDeep x) = stripUndefinedDeep x"
  then show "\<not> late_nested x" by (rule fixpoint_not_late_nested)
next
  assume "\<not> late_nested x"
  then have "clean (stripUndefinedDeep x)" by (rule not_late_nested_clean)
  then show "stripUndefinedDeep (stripUndefinedDeep x) = stripUndefinedDeep x"
    by (rule clean_strip)
qed

text \<open>
  C8 on the code: the sanitizer is run on the array \<^verbatim>\<open>[null, [1]]\<close>, alone and as the
  \<^verbatim>\<open>issues\<close> of an analyzer result, and then on its own output. The test for an array
  of arrays, under the comment \<^verbatim>\<open>Multidimensional arrays -> stringify\<close>, looks at the
  first entry, which is \<^verbatim>\<open>null\<close>; so the first run goes through the entries, drops the
  \<^verbatim>\<open>null\<close> and returns the array of arrays \<^verbatim>\<open>[[1]]\<close>, and the second run, which now
  finds an array first, returns the string \<^verbatim>\<open>"[[1]]"\<close>. The second run does not leave
  the output of the first unchanged.
\<close>

theorem sanitizer_second_run_changes_output:
  "stripUndefinedDeep (JArr [JNull, JArr [JNum 1]]) = JArr [JArr [JNum 1]]
   \<and> stripUndefinedDeep (stripUndefinedDeep (JArr [JNull, JArr [JNum 1]])) = JStr ''[[1]]''
   \<and> stripUndefinedDeep (JObj [(''issues'', JArr [JNull, JArr [JNum 1]])])
       = JObj [(''issues'', JArr [JArr [JNum 1]])]
   \<and> stripUndefinedDeep (stripUndefinedDeep (JObj [(''issues'', JArr [JNull, JArr [JNum 1]])]))
       = JObj [(''issues'', JStr ''[[1]]'')]"
  by code_simp
section \<open>The split: what reaches the main payload and the sidecar\<close>

lemma obj_get_assign_parsed:
  "obj_get (JObj (assign_parsed d k dflt)) k' =
     (if k' = k then js_or (safeParse (obj_get (JObj d) k)) dflt else obj_get (JObj d) k')"
  unfolding assign_parsed_def by (rule obj_get_obj_set)


lemma parse_nested_oversized:
  "obj_get (JObj (parse_nested d)) ''heatmap'' =
     js_or (safeParse (obj_get (JObj d) ''heatmap'')) (JArr [])"
  unfolding parse_nested_def by (simp add: obj_get_assign_parsed del: obj_get.simps)


lemma layer12_json: "json_value raw \<Longrightarrow> layer12 raw = Some (stripUndefinedDeep raw)"
  unfolding layer12_def by (rule JSON_roundtrip) (rule json_strip)

lemma size_check_Inr:
  "size_check m s = Inr (m', s') \<Longrightarrow> m' = m \<and> s' = s \<and> length (ser m) \<le> size_limit"
  by (auto simp: size_check_def split: if_splits)

lemma split_payloads_Inr:
  assumes "split_payloads raw t = Inr (m, s)"
  obtains step2 fd0 where
    "layer12 raw = Some step2"
    "detail_fields (js_or (obj_get step2 ''forensic_details'') (JObj [])) = Inr fd0"
    "m = stripUndefinedDeep
           (mainPayload step2
              (lightForensics (JObj (parse_nested fd0))
                 (js_or (safeParse (obj_get step2 ''agent_logs'')) (JArr []))) t)"
    "s = stripUndefinedDeep
           (sidecarData (JObj (parse_nested fd0))
              (js_or (safeParse (obj_get step2 ''agent_logs'')) (JArr [])))"
    "length (ser m) \<le> size_limit"
proof -
  from assms obtain step2 where l12: "layer12 raw = Some step2"
    by (auto simp: split_payloads_def split: option.splits)
  from assms l12 obtain mp sd where l34: "layer34 step2 t = Inr (mp, sd)"
    and sc: "size_check (stripUndefinedDeep mp) (stripUndefinedDeep sd) = Inr (m, s)"
    by (auto simp: split_payloads_def split: sum.splits)
  from l34 obtain fd0 where
    df: "detail_fields (js_or (obj_get step2 ''forensic_details'') (JObj [])) = Inr fd0"
    and mp: "mp = mainPayload step2
              (lightForensics (JObj (parse_nested fd0))
                 (js_or (safeParse (obj_get step2 ''agent_logs'')) (JArr []))) t"
    and sd: "sd = sidecarData (JObj (parse_nested fd0))
              (js_or (safeParse (obj_get step2 ''agent_logs'')) (JArr []))"
    by (auto simp: layer34_def split: sum.splits)
  from size_check_Inr [OF sc] mp sd l12 df that show ?thesis by blast
qed

text \<open>
  The main payload always has the same four properties; \<^verbatim>\<open>analysis\<close> is an object and
  \<^verbatim>\<open>status\<close> is \<^verbatim>\<open>completed\<close>.
\<close>

lemma js_or_defined: "b \<noteq> JUndef \<Longrightarrow> js_or a b \<noteq> JUndef"
  by (auto simp: js_or_def dest: truthy_defined)

lemma main_shape:
  assumes "split_payloads raw t = Inr (m, s)"
  shows "\<exists>ocr an. m = JObj [(''ocr_text'', ocr), (''analysis'', JObj an),
           (''processing_time'', JNum t), (''status'', JStr ''completed'')]"
proof -
  from assms obtain step2 fd0 where
    m: "m = stripUndefinedDeep
           (mainPayload step2
              (lightForensics (JObj (parse_nested fd0))
                 (js_or (safeParse (obj_get step2 ''agent_logs'')) (JArr []))) t)"
    by (rule split_payloads_Inr)
  have "js_or (obj_get step2 ''ocr_text'') (JStr []) \<noteq> JUndef" by (simp add: js_or_defined)
  then show ?thesis
    unfolding m mainPayload_def
    by (simp add: oversized_keys_def heavy_keys_def proto_key_def strip_not_undef)
qed

lemma sidecar_lacks_oversized:
  assumes "split_payloads raw t = Inr (m, s)" and "k \<in> set oversized_keys"
  shows "obj_get s k = JUndef"
proof -
  from assms(1) obtain step2 fd0 where
    s: "s = stripUndefinedDeep
           (sidecarData (JObj (parse_nested fd0))
              (js_or (safeParse (obj_get step2 ''agent_logs'')) (JArr [])))"
    by (rule split_payloads_Inr)
  show ?thesis
    unfolding s sidecarData_def using assms(2)
    by (simp add: map_of_strip_oversized del: strip_fields.simps)
qed








lemma safeParse_other:
  "safeParse JUndef = JUndef" "safeParse JNull = JNull" "safeParse (JBool b) = JBool b"
  "safeParse (JNum n) = JNum n" "safeParse (JArr xs) = JArr xs" "safeParse (JObj kvs) = JObj kvs"
  by (simp_all add: safeParse_def)

lemma split_payloads_json:
  assumes "json_value raw"
    and "layer34 (stripUndefinedDeep raw) t = Inr (mp, sd)"
  shows "split_payloads raw t = size_check (stripUndefinedDeep mp) (stripUndefinedDeep sd)"
  using assms by (simp add: split_payloads_def layer12_json)

text \<open>
  C2 on the code: the analyzer returns a heat map, as a matrix or as its JSON text. The
  sanitizer drops the key \<^verbatim>\<open>heatmap\<close> from the result before the split reads it, and
  drops it again from \<^verbatim>\<open>sidecarData\<close>: the sidecar that is stored has no heat map.
\<close>

theorem heatmap_missing_from_sidecar:
  "split_payloads
     (JObj [(''trust_score'', JNum 80),
            (''forensic_details'',
               JObj [(''heatmap'', JArr [JArr [JNum 1, JNum 2], JArr [JNum 3, JNum 4]])])]) 7
   = Inr (JObj [(''ocr_text'', JStr []),
                (''analysis'',
                   JObj [(''trust_score'', JNum 80), (''verdict'', JStr ''unknown''),
                         (''issues'', JArr []), (''recommendation'', JStr []),
                         (''merchant'', JNull),
                         (''forensic_details'',
                            JObj [(''forensic_findings'', JStr ''[]''),
                                  (''agent_logs'', JStr ''[]''),
                                  (''forensic_progress'', JArr [])])]),
                (''processing_time'', JNum 7),
                (''status'', JStr ''completed'')],
          JObj [(''technical_details'', JStr ''{}''), (''agent_logs'', JStr ''[]''),
                (''forensic_progress'', JArr []), (''forensic_findings_full'', JArr [])])
   \<and> split_payloads
     (JObj [(''trust_score'', JNum 80),
            (''forensic_details'', JObj [(''heatmap'', JStr ''[[1,2],[3,4]]'')])]) 7
   = Inr (JObj [(''ocr_text'', JStr []),
                (''analysis'',
                   JObj [(''trust_score'', JNum 80), (''verdict'', JStr ''unknown''),
                         (''issues'', JArr []), (''recommendation'', JStr []),
                         (''merchant'', JNull),
                         (''forensic_details'',
                            JObj [(''forensic_findings'', JStr ''[]''),
                                  (''agent_logs'', JStr ''[]''),
                                  (''forensic_progress'', JArr [])])]),
                (''processing_time'', JNum 7),
                (''status'', JStr ''completed'')],
          JObj [(''technical_details'', JStr ''{}''), (''agent_logs'', JStr ''[]''),
                (''forensic_progress'', JArr []), (''forensic_findings_full'', JArr [])])"
proof -
  let ?step2 = "JObj [(''trust_score'', JNum 80), (''forensic_details'', JObj [])]"
  let ?main = "JObj [(''ocr_text'', JStr []),
                (''analysis'',
                   JObj [(''trust_score'', JNum 80), (''verdict'', JStr ''unknown''),
                         (''issues'', JArr []), (''recommendation'', JStr []),
                         (''merchant'', JNull),
                         (''forensic_details'',
                            JObj [(''forensic_findings'', JStr ''[]''),
                                  (''agent_logs'', JStr ''[]''),
                                  (''forensic_progress'', JArr [])])]),
                (''processing_time'', JNum 7),
                (''status'', JStr ''completed'')]"
  let ?side = "JObj [(''technical_details'', JStr ''{}''), (''agent_logs'', JStr ''[]''),
                (''forensic_progress'', JArr []), (''forensic_findings_full'', JArr [])]"
  have s1: "stripUndefinedDeep
     (JObj [(''trust_score'', JNum 80),
            (''forensic_details'',
               JObj [(''heatmap'', JArr [JArr [JNum 1, JNum 2], JArr [JNum 3, JNum 4]])])])
     = ?step2"
    by (simp add: oversized_keys_def heavy_keys_def proto_key_def)
  have s2: "stripUndefinedDeep
     (JObj [(''trust_score'', JNum 80),
            (''forensic_details'', JObj [(''heatmap'', JStr ''[[1,2],[3,4]]'')])])
     = ?step2"
    by (simp add: oversized_keys_def heavy_keys_def proto_key_def)
  have pn: "parse_nested [] =
     [(''forensic_findings'', JArr []), (''technical_details'', JObj []),
      (''heatmap'', JArr []), (''pixel_diff'', JObj []), (''forensic_progress'', JArr [])]"
    by (simp add: parse_nested_def assign_parsed_def plain_write safeParse_other js_or_def)
  have "\<exists>mp sd. layer34 ?step2 7 = Inr (mp, sd)
      \<and> stripUndefinedDeep mp = ?main \<and> stripUndefinedDeep sd = ?side"
    by (simp add: layer34_def detail_fields_def pn js_or_def safeParse_other mainPayload_def
        lightForensics_def sidecarData_def oversized_keys_def heavy_keys_def proto_key_def JSON_stringify_def)
  then obtain mp sd where l34: "layer34 ?step2 7 = Inr (mp, sd)"
    and mp: "stripUndefinedDeep mp = ?main" and sd: "stripUndefinedDeep sd = ?side"
    by blast
  have sz: "size_check ?main ?side = Inr (?main, ?side)"
    by (simp add: size_check_def size_limit_def quote_def escape_char_def show_int_def
        show_nat.simps)
  have "split_payloads
     (JObj [(''trust_score'', JNum 80),
            (''forensic_details'',
               JObj [(''heatmap'', JArr [JArr [JNum 1, JNum 2], JArr [JNum 3, JNum 4]])])]) 7
     = Inr (?main, ?side)"
    by (subst split_payloads_json [where mp = mp and sd = sd])
      (simp_all only: s1 l34 mp sd sz, simp add: not_index_nondigit is_digit_def)
  moreover have "split_payloads
     (JObj [(''trust_score'', JNum 80),
            (''forensic_details'', JObj [(''heatmap'', JStr ''[[1,2],[3,4]]'')])]) 7
     = Inr (?main, ?side)"
    by (subst split_payloads_json [where mp = mp and sd = sd])
      (simp_all only: s2 l34 mp sd sz, simp add: not_index_nondigit is_digit_def)
  ultimately show ?thesis by (rule conjI)
qed

lemma split_text_only:
  assumes "s \<noteq> []"
  shows "split_payloads (JObj [(''ocr_text'', JStr s)]) t =
    size_check
      (JObj [(''ocr_text'', JStr s),
             (''analysis'',
                JObj [(''trust_score'', JNum 0), (''verdict'', JStr ''unknown''),
                      (''issues'', JArr []), (''recommendation'', JStr []),
                      (''merchant'', JNull),
                      (''forensic_details'',
                         JObj [(''forensic_findings'', JStr ''[]''),
                               (''agent_logs'', JStr ''[]''),
                               (''forensic_progress'', JArr [])])]),
             (''processing_time'', JNum t),
             (''status'', JStr ''completed'')])
      (JObj [(''technical_details'', JStr ''{}''), (''agent_logs'', JStr ''[]''),
             (''forensic_progress'', JArr []), (''forensic_findings_full'', JArr [])])"
proof -
  have s1: "stripUndefinedDeep (JObj [(''ocr_text'', JStr s)]) = JObj [(''ocr_text'', JStr s)]"
    by (simp add: oversized_keys_def heavy_keys_def proto_key_def)
  have pn: "parse_nested [] =
     [(''forensic_findings'', JArr []), (''technical_details'', JObj []),
      (''heatmap'', JArr []), (''pixel_diff'', JObj []), (''forensic_progress'', JArr [])]"
    by (simp add: parse_nested_def assign_parsed_def plain_write safeParse_other js_or_def)
  have "\<exists>mp sd. layer34 (JObj [(''ocr_text'', JStr s)]) t = Inr (mp, sd)
      \<and> stripUndefinedDeep mp =
          JObj [(''ocr_text'', JStr s),
             (''analysis'',
                JObj [(''trust_score'', JNum 0), (''verdict'', JStr ''unknown''),
                      (''issues'', JArr []), (''recommendation'', JStr []),
                      (''merchant'', JNull),
                      (''forensic_details'',
                         JObj [(''forensic_findings'', JStr ''[]''),
                               (''agent_logs'', JStr ''[]''),
                               (''forensic_progress'', JArr [])])]),
             (''processing_time'', JNum t),
             (''status'', JStr ''completed'')]
      \<and> stripUndefinedDeep sd =
          JObj [(''technical_details'', JStr ''{}''), (''agent_logs'', JStr ''[]''),
             (''forensic_progress'', JArr []), (''forensic_findings_full'', JArr [])]"
    using assms
    by (simp add: layer34_def detail_fields_def pn js_or_def safeParse_other mainPayload_def
        lightForensics_def sidecarData_def oversized_keys_def heavy_keys_def proto_key_def JSON_stringify_def)
  then obtain mp sd where l34: "layer34 (JObj [(''ocr_text'', JStr s)]) t = Inr (mp, sd)"
    and mp: "stripUndefinedDeep mp =
          JObj [(''ocr_text'', JStr s),
             (''analysis'',
                JObj [(''trust_score'', JNum 0), (''verdict'', JStr ''unknown''),
                      (''issues'', JArr []), (''recommendation'', JStr []),
                      (''merchant'', JNull),
                      (''forensic_details'',
                         JObj [(''forensic_findings'', JStr ''[]''),
                               (''agent_logs'', JStr ''[]''),
                               (''forensic_progress'', JArr [])])]),
             (''processing_time'', JNum t),
             (''status'', JStr ''completed'')]"
    and sd: "stripUndefinedDeep sd =
          JObj [(''technical_details'', JStr ''{}''), (''agent_logs'', JStr ''[]''),
             (''forensic_progress'', JArr []), (''forensic_findings_full'', JArr [])]"
    by blast
  show ?thesis
    by (subst split_payloads_json [where mp = mp and sd = sd])
      (simp_all only: s1 l34 mp sd, simp add: not_index_nondigit is_digit_def)
qed

lemma escape_replicate:
  assumes "escape_char c = [c]"
  shows "concat (map escape_char (replicate n c)) = replicate n c"
  using assms by (induction n) auto

lemma utf8_replicate:
  "utf8_length (replicate n c) = n * (if (of_char c :: nat) < 128 then 1 else 2)"
  by (induction n) (auto simp: utf8_length_def)

text \<open>
  C3 on the code: the size test counts the UTF-16 code units of the JSON text, not its
  bytes. An OCR text of 600000 letters \<^verbatim>\<open>e\<close> with an acute accent (U+00E9, two bytes in
  UTF-8) gives a main payload of 600240 code units, under the limit, and of more than
  1200000 bytes: the split raises no error and returns it to be written.
\<close>

theorem oversized_summary_passes_size_check:
  "split_payloads (JObj [(''ocr_text'', JStr (replicate 600000 (CHR 0xE9)))]) 7 =
     Inr (JObj [(''ocr_text'', JStr (replicate 600000 (CHR 0xE9))),
                (''analysis'',
                   JObj [(''trust_score'', JNum 0), (''verdict'', JStr ''unknown''),
                         (''issues'', JArr []), (''recommendation'', JStr []),
                         (''merchant'', JNull),
                         (''forensic_details'',
                            JObj [(''forensic_findings'', JStr ''[]''),
                                  (''agent_logs'', JStr ''[]''),
                                  (''forensic_progress'', JArr [])])]),
                (''processing_time'', JNum 7),
                (''status'', JStr ''completed'')],
          JObj [(''technical_details'', JStr ''{}''), (''agent_logs'', JStr ''[]''),
                (''forensic_progress'', JArr []), (''forensic_findings_full'', JArr [])])
   \<and> length (ser (JObj [(''ocr_text'', JStr (replicate 600000 (CHR 0xE9))),
                (''analysis'',
                   JObj [(''trust_score'', JNum 0), (''verdict'', JStr ''unknown''),
                         (''issues'', JArr []), (''recommendation'', JStr []),
                         (''merchant'', JNull),
                         (''forensic_details'',
                            JObj [(''forensic_findings'', JStr ''[]''),
                                  (''agent_logs'', JStr ''[]''),
                                  (''forensic_progress'', JArr [])])]),
                (''processing_time'', JNum 7),
                (''status'', JStr ''completed'')])) = 600240
   \<and> utf8_length (ser (JObj [(''ocr_text'', JStr (replicate 600000 (CHR 0xE9))),
                (''analysis'',
                   JObj [(''trust_score'', JNum 0), (''verdict'', JStr ''unknown''),
                         (''issues'', JArr []), (''recommendation'', JStr []),
                         (''merchant'', JNull),
                         (''forensic_details'',
                            JObj [(''forensic_findings'', JStr ''[]''),
                                  (''agent_logs'', JStr ''[]''),
                                  (''forensic_progress'', JArr [])])]),
                (''processing_time'', JNum 7),
                (''status'', JStr ''completed'')])) = 1200240
   \<and> size_limit = 1048576"
proof -
  define big where "big = replicate 600000 (CHR 0xE9)"
  let ?main = "JObj [(''ocr_text'', JStr big),
                (''analysis'',
                   JObj [(''trust_score'', JNum 0), (''verdict'', JStr ''unknown''),
                         (''issues'', JArr []), (''recommendation'', JStr []),
                         (''merchant'', JNull),
                         (''forensic_details'',
                            JObj [(''forensic_findings'', JStr ''[]''),
                                  (''agent_logs'', JStr ''[]''),
                                  (''forensic_progress'', JArr [])])]),
                (''processing_time'', JNum 7),
                (''status'', JStr ''completed'')]"
  let ?side = "JObj [(''technical_details'', JStr ''{}''), (''agent_logs'', JStr ''[]''),
                (''forensic_progress'', JArr []), (''forensic_findings_full'', JArr [])]"
  have ne: "big \<noteq> []" by (simp add: big_def)
  have "escape_char (CHR 0xE9) = [CHR 0xE9]" by (simp add: escape_char_def)
  then have esc: "concat (map escape_char big) = big"
    unfolding big_def by (rule escape_replicate)
  have len: "length big = 600000" by (simp add: big_def)
  have "utf8_length big = 1200000"
    unfolding big_def by (simp add: utf8_replicate)
  then have u8: "sum_list (map (\<lambda>c. if (of_char c :: nat) < 128 then 1 else 2) big) =
      (1200000 :: nat)"
    by (simp add: utf8_length_def)
  have l: "length (ser ?main) = 600240"
    by (simp add: quote_def esc len escape_char_def show_int_def show_nat.simps)
  have u: "utf8_length (ser ?main) = 1200240"
    by (simp add: utf8_length_def quote_def esc u8 escape_char_def show_int_def show_nat.simps
        digit_char_def)
  have "split_payloads (JObj [(''ocr_text'', JStr big)]) 7 = Inr (?main, ?side)"
    unfolding split_text_only [OF ne] size_check_def using l by (simp add: size_limit_def)
  with l u show ?thesis unfolding big_def by (simp add: size_limit_def)
qed





section \<open>Runs of the pipeline\<close>



lemma percents_append: "percents (xs @ ys) = percents xs @ percents ys"
  by (induction xs rule: percents.induct) auto

lemma stored_docs_append: "stored_docs rid (xs @ ys) = stored_docs rid xs @ stored_docs rid ys"
  by (induction rid xs rule: stored_docs.induct) auto

lemma log_action_simps:
  "trace (log_action as w) = trace w @ as"
  "receipts (log_action as w) = receipts w"
  "sidecars (log_action as w) = sidecars w"
  by (simp_all add: log_action_def)

lemma emit_simps:
  "trace (emitProgress rid p st msg w) = trace w @ [Emit rid (Progress p st (if msg = [] then st else msg))]"
  "receipts (emitProgress rid p st msg w) = receipts w"
  "sidecars (emitProgress rid p st msg w) = sidecars w"
  "trace (emitComplete rid data w) = trace w @ [Emit rid (Complete data)]"
  "receipts (emitComplete rid data w) = receipts w"
  "sidecars (emitComplete rid data w) = sidecars w"
  "trace (emitError rid err w) = trace w @ [Emit rid (Failure err)]"
  "receipts (emitError rid err w) = receipts w"
  "sidecars (emitError rid err w) = sidecars w"
  by (simp_all add: emitProgress_def emitComplete_def emitError_def log_action_def)

lemma obj_get_merge_fields:
  "distinct (map fst new) \<Longrightarrow>
   obj_get (JObj (merge_fields old new)) k =
     (case map_of new k of
        None \<Rightarrow> obj_get (JObj old) k
      | Some v \<Rightarrow> merge_value (obj_get (JObj old) k) v)"
proof (induction new arbitrary: old)
  case Nil
  then show ?case by simp
next
  case (Cons p new)
  obtain k' v where p: "p = (k', v)" by (cases p)
  show ?case
  proof (cases "k = k'")
    case True
    then have "map_of new k = None" using Cons.prems p by (auto simp: map_of_eq_None_iff)
    then show ?thesis using Cons p True
      by (simp add: obj_get_obj_set del: obj_get.simps merge_value.simps)
  next
    case False
    then show ?thesis using Cons p
      by (simp add: obj_get_obj_set del: obj_get.simps merge_value.simps split: option.splits)
  qed
qed

lemma obj_get_update_fields:
  "distinct (map fst flds) \<Longrightarrow>
   obj_get (JObj (update_fields d flds)) k =
     (case map_of flds k of None \<Rightarrow> obj_get (JObj d) k | Some v \<Rightarrow> v)"
  unfolding update_fields_def
proof (induction flds arbitrary: d)
  case Nil
  then show ?case by simp
next
  case (Cons p flds)
  obtain k' v where p: "p = (k', v)" by (cases p)
  show ?case
  proof (cases "k = k'")
    case True
    then have "map_of flds k = None" using Cons.prems p by (auto simp: map_of_eq_None_iff)
    then show ?thesis using Cons p True
      by (simp add: obj_get_obj_set del: obj_get.simps)
  next
    case False
    then show ?thesis using Cons p
      by (simp add: obj_get_obj_set del: obj_get.simps split: option.splits)
  qed
qed



lemmas run_defs = scanReceipt_def analyzeReceiptAsync_def analyze_try_def persist_def
  anchor_step_def send_final_def call_analyzer_def batch_commit_def doc_update_def doc_set_def
  anchorToHCS_def on_failure_def log_action_def emitProgress_def emitError_def emitComplete_def
  new_actions_def


lemma status_new_receipt:
  "obj_get (JObj (new_receipt en d up)) ''status'' = JStr ''processing''"
  "obj_get (JObj (new_receipt en d up)) ''error'' = JUndef"
  "obj_get (JObj (new_receipt en d up)) ''analysis'' = JNull"
  "obj_get (JObj (new_receipt en d up)) ''hedera_anchor'' = JNull"
  by (simp_all add: new_receipt_def)

lemma inv_new_receipt: "record_inv (new_receipt en d up)"
  by (simp add: record_inv_def status_new_receipt del: obj_get.simps)

lemma commit_fields:
  assumes "nullish (obj_get (JObj d) ''error'')"
  shows "obj_get (JObj (merge_fields d [(''ocr_text'', ocr), (''analysis'', JObj an),
           (''processing_time'', JNum t), (''status'', JStr ''completed'')])) ''status'' = JStr ''completed''"
    and "nullish (obj_get (JObj (merge_fields d [(''ocr_text'', ocr), (''analysis'', JObj an),
           (''processing_time'', JNum t), (''status'', JStr ''completed'')])) ''error'')"
    and "\<not> nullish (obj_get (JObj (merge_fields d [(''ocr_text'', ocr), (''analysis'', JObj an),
           (''processing_time'', JNum t), (''status'', JStr ''completed'')])) ''analysis'')"
    and "obj_get (JObj (merge_fields d [(''ocr_text'', ocr), (''analysis'', JObj an),
           (''processing_time'', JNum t), (''status'', JStr ''completed'')])) ''hedera_anchor''
         = obj_get (JObj d) ''hedera_anchor''"
  using assms
  by (simp_all add: obj_get_merge_fields nullish_def del: obj_get.simps merge_fields.simps)

lemma anchor_fields:
  "k \<noteq> ''hedera_anchor'' \<Longrightarrow>
     obj_get (JObj (update_fields d [(''hedera_anchor'', a)])) k = obj_get (JObj d) k"
  "obj_get (JObj (update_fields d [(''hedera_anchor'', a)])) ''hedera_anchor'' = a"
  by (simp_all add: obj_get_update_fields del: obj_get.simps)

lemma failed_fields:
  "obj_get (JObj (update_fields d (failure_fields en m))) ''status'' = JStr ''failed''"
  "obj_get (JObj (update_fields d (failure_fields en m))) ''error'' = JStr (getUserFriendlyError m)"
  "obj_get (JObj (update_fields d (failure_fields en m))) ''analysis'' = obj_get (JObj d) ''analysis''"
  "obj_get (JObj (update_fields d (failure_fields en m))) ''hedera_anchor'' = obj_get (JObj d) ''hedera_anchor''"
  by (simp_all add: obj_get_update_fields failure_fields_def del: obj_get.simps)

lemma inv_failed: "record_inv (update_fields d (failure_fields en m))"
  by (simp add: record_inv_def failed_fields nullish_def del: obj_get.simps)

lemma terminal_failed: "terminal_status (update_fields d (failure_fields en m))"
  by (simp add: terminal_status_def failed_fields del: obj_get.simps)

lemma inv_commit:
  assumes "nullish (obj_get (JObj d) ''error'')"
  shows "record_inv (merge_fields d [(''ocr_text'', ocr), (''analysis'', JObj an),
           (''processing_time'', JNum t), (''status'', JStr ''completed'')])"
    and "terminal_status (merge_fields d [(''ocr_text'', ocr), (''analysis'', JObj an),
           (''processing_time'', JNum t), (''status'', JStr ''completed'')])"
  using commit_fields [OF assms, of ocr an t]
  by (simp_all add: record_inv_def terminal_status_def del: obj_get.simps merge_fields.simps)

lemma inv_anchor:
  "record_inv d \<Longrightarrow> record_inv (update_fields d [(''hedera_anchor'', a)])"
  "terminal_status d \<Longrightarrow> terminal_status (update_fields d [(''hedera_anchor'', a)])"
  by (simp_all add: record_inv_def terminal_status_def anchor_fields del: obj_get.simps)

lemma commit_status:
  "obj_get (JObj (merge_fields d [(''ocr_text'', ocr), (''analysis'', JObj an),
     (''processing_time'', JNum t), (''status'', JStr ''completed'')])) ''status'' = JStr ''completed''"
  by (simp add: obj_get_merge_fields del: obj_get.simps merge_fields.simps)

lemma anchor_status:
  "obj_get (JObj (update_fields d [(''hedera_anchor'', a)])) ''status'' = obj_get (JObj d) ''status''"
  by (simp add: anchor_fields del: obj_get.simps)

lemma failure_write_simps:
  "obj_get (JObj (failure_fields en m)) ''status'' = JStr ''failed''"
  "obj_get (JObj [(''hedera_anchor'', a)]) ''status'' = JUndef"
  by (simp_all add: failure_fields_def)

lemma handler_ran_simps:
  "handler_ran rid [] = False"
  "handler_ran rid (a # tr) = (failure_write rid a \<or> handler_ran rid tr)"
  by (simp_all add: handler_ran_def)

lemma inspect_ok:
  "inspect_response raw = Inr r \<Longrightarrow> r = raw \<and> JSON_stringify raw \<noteq> JUndef"
  by (auto simp: inspect_response_def JSON_stringify_def split: if_splits jv.splits)



lemmas inv_simps = inv_new_receipt inv_failed terminal_failed inv_commit inv_anchor
  status_new_receipt nullish_def commit_status anchor_status failed_fields failure_write_simps
  handler_ran_simps

lemma job_run_summary:
  assumes up: "upload_outcome en = Inr up" and st: "set_failure en = None"
  shows "run_summary en w (snd (scanReceipt en d w))"
proof (cases "analyzer_outcome en")
  case (Inl e)
  then show ?thesis using up st
    by (cases "failed_update_failure en";
        simp add: run_summary_def run_defs inv_simps del: obj_get.simps merge_fields.simps)
next
  case (Inr raw0)
  show ?thesis
  proof (cases "inspect_response raw0")
    case (Inl e)
    then show ?thesis using up st Inr
      by (cases "failed_update_failure en";
          simp add: run_summary_def run_defs inv_simps del: obj_get.simps merge_fields.simps)
  next
    case ins: (Inr raw)
    have raw: "JSON_stringify raw \<noteq> JUndef" using inspect_ok [OF ins] by simp
    show ?thesis
    proof (cases "split_payloads raw (elapsed_ms en)")
      case (Inl m)
      then show ?thesis using up st Inr ins
        by (cases "failed_update_failure en";
            simp add: run_summary_def run_defs inv_simps del: obj_get.simps merge_fields.simps)
    next
      case spl: (Inr ms)
      obtain cm cs where ms: "ms = (cm, cs)" by (cases ms)
      obtain ocr an where cm: "cm = JObj [(''ocr_text'', ocr), (''analysis'', JObj an),
           (''processing_time'', JNum (elapsed_ms en)), (''status'', JStr ''completed'')]"
        using main_shape [of raw "elapsed_ms en" cm cs] spl ms by auto
      show ?thesis
      proof (cases "commit_failure en")
        case (Some m)
        then show ?thesis using up st Inr ins spl ms
          by (cases "failed_update_failure en";
              simp add: run_summary_def run_defs inv_simps del: obj_get.simps merge_fields.simps)
      next
        case None
        show ?thesis
        proof (cases "truthy (anchorOnHedera d)")
          case False
          then show ?thesis using up st Inr ins spl ms cm None
            by (cases "get_failure en"; cases "failed_update_failure en";
                simp add: run_summary_def run_defs inv_simps
                  del: obj_get.simps merge_fields.simps)
        next
          case True
          show ?thesis
          proof (cases "anchor_outcome en")
            case (Inl m)
            then show ?thesis using up st Inr ins spl ms cm None True raw
              by (cases "failed_update_failure en";
                  simp add: run_summary_def run_defs inv_simps
                    del: obj_get.simps merge_fields.simps)
          next
            case anc: (Inr a)
            then show ?thesis using up st Inr ins spl ms cm None True raw
              by (cases "anchor_update_failure en"; cases "get_failure en";
                  cases "failed_update_failure en";
                  simp add: run_summary_def run_defs inv_simps
                    del: obj_get.simps merge_fields.simps)
          qed
        qed
      qed
    qed
  qed
qed


section \<open>The anchor operation\<close>

text \<open>
  C9. The anchor field of a record is \<^verbatim>\<open>null\<close> or the anchor object that
  \<^verbatim>\<open>anchorToHCS\<close> returned. For a record that exists and whose anchor field holds an
  object, the operation returns success with that anchor; all it does is read the record:
  the ledger is not called, nothing is written, the store is as it was.
\<close>

theorem anchor_again_is_noop:
  assumes "get_failure en = None"
    and "receipts w rid = Some d"
    and "obj_get (JObj d) ''hedera_anchor'' = JObj a"
  shows "fst (anchorReceiptToHedera en rid w) =
           Inr (JObj [(''success'', JBool True),
                      (''message'', JStr ''Receipt already anchored''),
                      (''hedera_anchor'', JObj a)])
         \<and> new_actions w (snd (anchorReceiptToHedera en rid w)) = [ReadDoc rid]
         \<and> receipts (snd (anchorReceiptToHedera en rid w)) = receipts w
         \<and> sidecars (snd (anchorReceiptToHedera en rid w)) = sidecars w"
  using assms
  by (simp add: anchorReceiptToHedera_def log_action_def new_actions_def del: obj_get.simps)

theorem anchor_again_is_noop_witness:
  "fst (anchorReceiptToHedera example_env ''RCP-3''
          (example_world\<lparr>receipts := (receipts example_world)
             (''RCP-3'' \<mapsto> [(''status'', JStr ''completed''),
                              (''hedera_anchor'', anchor_jv example_anchor)])\<rparr>)) =
     Inr (JObj [(''success'', JBool True),
                (''message'', JStr ''Receipt already anchored''),
                (''hedera_anchor'', anchor_jv example_anchor)])
   \<and> new_actions
        (example_world\<lparr>receipts := (receipts example_world)
             (''RCP-3'' \<mapsto> [(''status'', JStr ''completed''),
                              (''hedera_anchor'', anchor_jv example_anchor)])\<rparr>)
        (snd (anchorReceiptToHedera example_env ''RCP-3''
          (example_world\<lparr>receipts := (receipts example_world)
             (''RCP-3'' \<mapsto> [(''status'', JStr ''completed''),
                              (''hedera_anchor'', anchor_jv example_anchor)])\<rparr>)))
      = [ReadDoc ''RCP-3'']"
proof -
  let ?w = "example_world\<lparr>receipts := (receipts example_world)
             (''RCP-3'' \<mapsto> [(''status'', JStr ''completed''),
                              (''hedera_anchor'', anchor_jv example_anchor)])\<rparr>"
  have 1: "get_failure example_env = None" by (simp add: example_env_def)
  have 2: "receipts ?w ''RCP-3'' =
      Some [(''status'', JStr ''completed''), (''hedera_anchor'', anchor_jv example_anchor)]"
    by simp
  have 3: "obj_get (JObj [(''status'', JStr ''completed''),
        (''hedera_anchor'', anchor_jv example_anchor)]) ''hedera_anchor'' =
      JObj [(''transaction_id'', JStr (transaction_id example_anchor)),
           (''consensus_timestamp'', JStr (consensus_timestamp example_anchor)),
           (''message_hash'', JStr (message_hash example_anchor)),
           (''explorer_url'', JStr (explorer_url example_anchor))]"
    by (simp add: anchor_jv_def)
  show ?thesis
    using anchor_again_is_noop [OF 1 2 3] by (simp add: anchor_jv_def)
qed

text \<open>
  C10. For a record that exists, with its \<^verbatim>\<open>analysis\<close> field (which may be \<^verbatim>\<open>null\<close>) and
  a \<^verbatim>\<open>null\<close> anchor field, whatever its status: when the read, the ledger and the update
  succeed, the operation reads the record, calls the ledger on the value of the
  \<^verbatim>\<open>analysis\<close> field and writes the anchor it returns into the record. No status is
  asked for.
\<close>

theorem anchor_asks_no_status:
  assumes "get_failure en = None"
    and "receipts w rid = Some d"
    and "obj_get (JObj d) ''hedera_anchor'' = JNull"
    and "obj_get (JObj d) ''analysis'' \<noteq> JUndef"
    and "anchor_outcome en = Inr a"
    and "anchor_update_failure en = None"
  shows "new_actions w (snd (anchorReceiptToHedera en rid w)) =
           [ReadDoc rid,
            CallAnchor rid (obj_get (JObj d) ''analysis''),
            WriteUpdate rid [(''hedera_anchor'', anchor_jv a)],
            Stored rid (update_fields d [(''hedera_anchor'', anchor_jv a)])]
         \<and> receipts (snd (anchorReceiptToHedera en rid w)) rid =
             Some (update_fields d [(''hedera_anchor'', anchor_jv a)])
         \<and> record_field (snd (anchorReceiptToHedera en rid w)) rid ''hedera_anchor'' = anchor_jv a
         \<and> record_field (snd (anchorReceiptToHedera en rid w)) rid ''status''
             = obj_get (JObj d) ''status''
         \<and> fst (anchorReceiptToHedera en rid w) =
             Inr (JObj [(''success'', JBool True),
                        (''message'', JStr ''Successfully anchored to Hedera''),
                        (''hedera_anchor'', anchor_jv a)])"
  using assms
  by (simp add: anchorReceiptToHedera_def anchorToHCS_def doc_update_def log_action_def
      new_actions_def JSON_stringify_def record_field_def anchor_fields del: obj_get.simps)

theorem anchor_asks_no_status_witness:
  "new_actions example_world
     (snd (anchorReceiptToHedera (example_env\<lparr>anchor_outcome := Inr example_anchor\<rparr>)
             ''RCP-2'' example_world)) =
     [ReadDoc ''RCP-2'',
      CallAnchor ''RCP-2'' JNull,
      WriteUpdate ''RCP-2'' [(''hedera_anchor'', anchor_jv example_anchor)],
      Stored ''RCP-2'' (update_fields processing_record
                         [(''hedera_anchor'', anchor_jv example_anchor)])]
   \<and> record_field
        (snd (anchorReceiptToHedera (example_env\<lparr>anchor_outcome := Inr example_anchor\<rparr>)
                ''RCP-2'' example_world))
        ''RCP-2'' ''hedera_anchor'' = anchor_jv example_anchor
   \<and> record_field
        (snd (anchorReceiptToHedera (example_env\<lparr>anchor_outcome := Inr example_anchor\<rparr>)
                ''RCP-2'' example_world))
        ''RCP-2'' ''status'' = JStr ''processing''"
proof -
  let ?en = "example_env\<lparr>anchor_outcome := Inr example_anchor\<rparr>"
  have 1: "get_failure ?en = None" by (simp add: example_env_def)
  have 2: "receipts example_world ''RCP-2'' = Some processing_record"
    by (simp add: example_world_def)
  have 3: "obj_get (JObj processing_record) ''hedera_anchor'' = JNull"
    by (simp add: processing_record_def)
  have 4: "obj_get (JObj processing_record) ''analysis'' \<noteq> JUndef"
    by (simp add: processing_record_def)
  have 5: "anchor_outcome ?en = Inr example_anchor" by simp
  have 6: "anchor_update_failure ?en = None" by (simp add: example_env_def)
  have 7: "obj_get (JObj processing_record) ''analysis'' = JNull"
    "obj_get (JObj processing_record) ''status'' = JStr ''processing''"
    by (simp_all add: processing_record_def)
  show ?thesis
    using anchor_asks_no_status [OF 1 2 3 4 5 6] unfolding 7 by simp
qed

section \<open>The pipeline: events, records and the failure of the anchoring\<close>

lemma summary_not_created:
  assumes "upload_outcome en \<noteq> Inr up \<or> set_failure en \<noteq> None"
    and "upload_outcome en = Inr up \<or> (\<exists>m. upload_outcome en = Inl m)"
  shows "stored_docs (receipt_id en) (new_actions w (snd (scanReceipt en d w))) = []"
  using assms
  by (cases "set_failure en") (auto simp: run_defs)

lemma anchor_op_keeps_invariant:
  assumes "receipts w rid = Some rec" and "record_inv rec"
  shows "list_all record_inv
           (stored_docs rid (new_actions w (snd (anchorReceiptToHedera en rid w))))"
  using assms
  by (cases "get_failure en"; cases "anchor_outcome en"; cases "anchor_update_failure en";
      simp add: anchorReceiptToHedera_def anchorToHCS_def doc_update_def log_action_def
        new_actions_def inv_anchor del: obj_get.simps)

lemma friendly_example: "getUserFriendlyError ''INSUFFICIENT_PAYER_BALANCE'' = ''INSUFFICIENT_PAYER_BALANCE''"
  by (simp add: getUserFriendlyError_def friendly_message_def)

lemma split_example:
  "split_payloads (JObj [(''ocr_text'', JStr ''TOTAL 100'')]) 7 =
     Inr (JObj [(''ocr_text'', JStr ''TOTAL 100''),
                (''analysis'',
                   JObj [(''trust_score'', JNum 0), (''verdict'', JStr ''unknown''),
                         (''issues'', JArr []), (''recommendation'', JStr []),
                         (''merchant'', JNull),
                         (''forensic_details'',
                            JObj [(''forensic_findings'', JStr ''[]''),
                                  (''agent_logs'', JStr ''[]''),
                                  (''forensic_progress'', JArr [])])]),
                (''processing_time'', JNum 7),
                (''status'', JStr ''completed'')],
          JObj [(''technical_details'', JStr ''{}''), (''agent_logs'', JStr ''[]''),
                (''forensic_progress'', JArr []), (''forensic_findings_full'', JArr [])])"
proof -
  have "''TOTAL 100'' \<noteq> []" by simp
  then show ?thesis
    unfolding split_text_only [OF \<open>''TOTAL 100'' \<noteq> []\<close>]
    by (simp add: size_check_def size_limit_def quote_def escape_char_def show_int_def
        show_nat.simps)
qed

lemma example_facts:
  "receipt_id example_env = ''RCP-1''"
  "upload_outcome example_env = Inr \<lparr>secure_url = ''https://img/r1.jpg'', public_id = ''r1''\<rparr>"
  "set_failure example_env = None"
  "analyzer_outcome example_env = Inr (JObj [(''ocr_text'', JStr ''TOTAL 100'')])"
  "elapsed_ms example_env = 7"
  "commit_failure example_env = None"
  "anchor_outcome example_env = Inl ''INSUFFICIENT_PAYER_BALANCE''"
  "anchor_update_failure example_env = None"
  "get_failure example_env = None"
  "failed_update_failure example_env = None"
  "truthy (anchorOnHedera example_dto)"
  "inspect_response (JObj [(''ocr_text'', JStr ''TOTAL 100'')]) =
     Inr (JObj [(''ocr_text'', JStr ''TOTAL 100'')])"
  by (simp_all add: example_env_def example_dto_def inspect_response_def)

text \<open>
  The example run: the analysis is stored, the ledger refuses the anchor, and the handler
  marks the record failed.
\<close>

lemma example_run:
  "percents (events_of ''RCP-1''
     (new_actions empty_world (snd (scanReceipt example_env example_dto empty_world))))
     = [5, 15, 20, 40, 80, 90]"
  "filter is_terminal (events_of ''RCP-1''
     (new_actions empty_world (snd (scanReceipt example_env example_dto empty_world))))
     = [Failure ''INSUFFICIENT_PAYER_BALANCE'']"
  "map (\<lambda>doc. obj_get (JObj doc) ''status'') (stored_docs ''RCP-1''
     (new_actions empty_world (snd (scanReceipt example_env example_dto empty_world))))
     = [JStr ''processing'', JStr ''completed'', JStr ''failed'']"
  "record_field (snd (scanReceipt example_env example_dto empty_world)) ''RCP-1'' ''status''
     = JStr ''failed''"
  "record_field (snd (scanReceipt example_env example_dto empty_world)) ''RCP-1'' ''error''
     = JStr ''INSUFFICIENT_PAYER_BALANCE''"
  "record_field (snd (scanReceipt example_env example_dto empty_world)) ''RCP-1'' ''hedera_anchor''
     = JNull"
  by (simp_all add: run_defs example_facts split_example JSON_stringify_def record_field_def
      failed_fields commit_fields status_new_receipt friendly_example nullish_def
      del: obj_get.simps merge_fields.simps)





text \<open>
  C5. Every state of the record that a job writes, from the document that
  \<^verbatim>\<open>scanReceipt\<close> creates to the last update of \<^verbatim>\<open>analyzeReceiptAsync\<close>, meets the
  invariant: completed means a summary that is not null and no error, failed means an
  error that is not null. When the job is created the record in the store is the last of
  these states. The anchor operation, on a record that meets the invariant, writes only
  states that meet it.
\<close>

theorem record_invariant_kept:
  "list_all record_inv
     (stored_docs (receipt_id en) (new_actions w (snd (scanReceipt en d w))))
   \<and> (upload_outcome en = Inr up \<and> set_failure en = None \<longrightarrow>
        stored_docs (receipt_id en) (new_actions w (snd (scanReceipt en d w))) \<noteq> []
        \<and> receipts (snd (scanReceipt en d w)) (receipt_id en) =
            Some (last (stored_docs (receipt_id en) (new_actions w (snd (scanReceipt en d w))))))
   \<and> (receipts w rid = Some rec \<and> record_inv rec \<longrightarrow>
        list_all record_inv
          (stored_docs rid (new_actions w (snd (anchorReceiptToHedera en_a rid w)))))"
proof -
  have 1: "list_all record_inv
     (stored_docs (receipt_id en) (new_actions w (snd (scanReceipt en d w))))"
  proof (cases "upload_outcome en")
    case (Inl m)
    then show ?thesis using summary_not_created [of en undefined w d] by simp
  next
    case (Inr u)
    show ?thesis
    proof (cases "set_failure en")
      case None
      then show ?thesis using job_run_summary [OF Inr None, of w d]
        by (simp add: run_summary_def)
    next
      case (Some m)
      then show ?thesis using summary_not_created [of en u w d] Inr by simp
    qed
  qed
  have 2: "stored_docs (receipt_id en) (new_actions w (snd (scanReceipt en d w))) \<noteq> []
        \<and> receipts (snd (scanReceipt en d w)) (receipt_id en) =
            Some (last (stored_docs (receipt_id en) (new_actions w (snd (scanReceipt en d w)))))"
    if "upload_outcome en = Inr up" "set_failure en = None"
    using job_run_summary [OF that, of w d] by (simp add: run_summary_def)
  have 3: "list_all record_inv
          (stored_docs rid (new_actions w (snd (anchorReceiptToHedera en_a rid w))))"
    if "receipts w rid = Some rec" "record_inv rec"
    using that by (rule anchor_op_keeps_invariant)
  from 1 2 3 show ?thesis by blast
qed

theorem record_invariant_kept_witness:
  "list_all record_inv
     (stored_docs ''RCP-1''
        (new_actions empty_world (snd (scanReceipt example_env example_dto empty_world))))
   \<and> map (\<lambda>doc. obj_get (JObj doc) ''status'')
        (stored_docs ''RCP-1''
           (new_actions empty_world (snd (scanReceipt example_env example_dto empty_world))))
      = [JStr ''processing'', JStr ''completed'', JStr ''failed'']
   \<and> list_all record_inv
        (stored_docs ''RCP-2''
           (new_actions example_world
              (snd (anchorReceiptToHedera (example_env\<lparr>anchor_outcome := Inr example_anchor\<rparr>)
                      ''RCP-2'' example_world))))"
proof -
  have a: "receipts example_world ''RCP-2'' = Some processing_record"
    by (simp add: example_world_def)
  have b: "record_inv processing_record"
    by (simp add: record_inv_def processing_record_def)
  show ?thesis
    using record_invariant_kept
      [where en = example_env and w = empty_world and d = example_dto
        and up = "\<lparr>secure_url = ''https://img/r1.jpg'', public_id = ''r1''\<rparr>"]
      record_invariant_kept
      [where w = example_world and rid = "''RCP-2''" and rec = processing_record
        and en_a = "example_env\<lparr>anchor_outcome := Inr example_anchor\<rparr>"]
      a b example_run(3)
    by (simp add: example_facts)
qed









end
